theory Spec2Isabelle
  imports Main "HOL-Library.AList"
begin

section \<open>JavaScript values\<close>

text \<open>
  The values that flow through the cache, the HTTP client and the cache keys. A number is an
  integer (the filters carry \<open>limit\<close> and \<open>offset\<close>, and integers print in decimal). A string is
  a list of code units below 256. A \<open>Date\<close> object is represented by the text its \<open>toJSON\<close>
  yields, \<open>None\<close> for an invalid date. An object is its list of own properties in
  enumeration order, which for names that are not array indices is insertion order; names
  are distinct.
\<close>

datatype js =
    JUndefined
  | JNull
  | JBool bool
  | JNum int
  | JStr string
  | JDate "string option"
  | JArr "js list"
  | JObj "(string \<times> js) list"

text \<open>\<open>ToBoolean\<close>: what \<open>if (v)\<close>, \<open>v || w\<close> and \<open>!v\<close> test.\<close>

fun truthy :: "js \<Rightarrow> bool" where
  "truthy JUndefined = False"
| "truthy JNull = False"
| "truthy (JBool b) = b"
| "truthy (JNum n) = (n \<noteq> 0)"
| "truthy (JStr s) = (s \<noteq> [])"
| "truthy (JDate d) = True"
| "truthy (JArr xs) = True"
| "truthy (JObj ps) = True"

subsection \<open>\<open>JSON.stringify\<close>\<close>

text \<open>Digits, decimal and hexadecimal; \<open>digit_char\<close> is only applied below 16.\<close>

definition digit_char :: "nat \<Rightarrow> char" where
  "digit_char d = ''0123456789abcdef'' ! d"

function string_of_nat :: "nat \<Rightarrow> string" where
  "string_of_nat n =
     (if n < 10 then [digit_char n] else string_of_nat (n div 10) @ [digit_char (n mod 10)])"
  by pat_completeness auto
termination
  by (relation "measure id") auto

declare string_of_nat.simps [simp del]

definition string_of_int :: "int \<Rightarrow> string" where
  "string_of_int i = (if i < 0 then CHR ''-'' # string_of_nat (nat (- i)) else string_of_nat (nat i))"

text \<open>
  \<open>QuoteJSONString\<close>: the quote, the backslash and the control characters are escaped, every
  other code unit is copied.
\<close>

definition escape_char :: "char \<Rightarrow> string" where
  "escape_char c =
     (if c = CHR 0x08 then [CHR 0x5C, CHR ''b'']
      else if c = CHR 0x09 then [CHR 0x5C, CHR ''t'']
      else if c = CHR 0x0A then [CHR 0x5C, CHR ''n'']
      else if c = CHR 0x0C then [CHR 0x5C, CHR ''f'']
      else if c = CHR 0x0D then [CHR 0x5C, CHR ''r'']
      else if c = CHR 0x22 then [CHR 0x5C, CHR 0x22]
      else if c = CHR 0x5C then [CHR 0x5C, CHR 0x5C]
      else if (of_char c :: nat) < 32
        then [CHR 0x5C, CHR ''u'', CHR ''0'', CHR ''0'',
              digit_char (of_char c div 16), digit_char (of_char c mod 16)]
      else [c])"

definition QuoteJSONString :: "string \<Rightarrow> string" where
  "QuoteJSONString s = [CHR 0x22] @ concat (map escape_char s) @ [CHR 0x22]"

fun join_comma :: "string list \<Rightarrow> string" where
  "join_comma [] = []"
| "join_comma [s] = s"
| "join_comma (s # t # ts) = s @ '','' @ join_comma (t # ts)"

text \<open>
  \<open>SerializeJSONProperty\<close> yields no text (\<open>None\<close>) for \<open>undefined\<close>. A property whose value
  is \<open>undefined\<close> is left out of an object; an \<open>undefined\<close> array element prints as \<open>null\<close>.
  The properties are written in enumeration order.
\<close>

fun SerializeJSONProperty :: "js \<Rightarrow> string option"
  and SerializeJSONObject :: "(string \<times> js) list \<Rightarrow> string list"
  and SerializeJSONArray :: "js list \<Rightarrow> string list"
where
  "SerializeJSONProperty JUndefined = None"
| "SerializeJSONProperty JNull = Some ''null''"
| "SerializeJSONProperty (JBool b) = Some (if b then ''true'' else ''false'')"
| "SerializeJSONProperty (JNum n) = Some (string_of_int n)"
| "SerializeJSONProperty (JStr s) = Some (QuoteJSONString s)"
| "SerializeJSONProperty (JDate d) =
     Some (case d of None \<Rightarrow> ''null'' | Some txt \<Rightarrow> QuoteJSONString txt)"
| "SerializeJSONProperty (JArr xs) = Some (''['' @ join_comma (SerializeJSONArray xs) @ '']'')"
| "SerializeJSONProperty (JObj ps) = Some (''{'' @ join_comma (SerializeJSONObject ps) @ ''}'')"
| "SerializeJSONObject [] = []"
| "SerializeJSONObject ((k, v) # ps) =
     (case SerializeJSONProperty v of
        None \<Rightarrow> SerializeJSONObject ps
      | Some s \<Rightarrow> (QuoteJSONString k @ '':'' @ s) # SerializeJSONObject ps)"
| "SerializeJSONArray [] = []"
| "SerializeJSONArray (x # xs) =
     (case SerializeJSONProperty x of None \<Rightarrow> ''null'' | Some s \<Rightarrow> s) # SerializeJSONArray xs"

definition JSON_stringify :: "js \<Rightarrow> string option" where
  "JSON_stringify v = SerializeJSONProperty v"

text \<open>A template literal \<open>`${x}`\<close> prints the missing result of \<open>JSON.stringify\<close> as \<open>undefined\<close>.\<close>

definition template :: "string option \<Rightarrow> string" where
  "template r = (case r of None \<Rightarrow> ''undefined'' | Some s \<Rightarrow> s)"

section \<open>Cache manager (services/cacheManager.ts)\<close>

text \<open>
  The memory layer is a JavaScript \<open>Map\<close>: an association list in insertion order, where
  writing an existing key keeps its position. The durable layer is the IndexedDB object store,
  absent when \<open>openDB\<close> failed in \<open>init\<close>; an open store performs each request it is given.
  Times are milliseconds as \<open>Date.now()\<close> returns them; one cache operation reads the clock
  at one instant \<open>now\<close>.
\<close>

record CacheEntry =
  data :: js
  timestamp :: int
  expiresAt :: int
  version :: int

record CacheManager =
  memoryCache :: "(string \<times> CacheEntry) list"
  db :: "(string \<rightharpoonup> CacheEntry) option"
  currentMemorySize :: int

definition maxMemorySize :: int where
  "maxMemorySize = 50 * 1024 * 1024"

definition defaultTTL :: int where
  "defaultTTL = 300000"

definition new_CacheManager :: "bool \<Rightarrow> CacheManager" where
  "new_CacheManager db_opened =
     \<lparr>memoryCache = [], db = (if db_opened then Some Map.empty else None), currentMemorySize = 0\<rparr>"

text \<open>
  \<open>estimateSize\<close>: the number of bytes of the UTF-8 encoding of \<open>JSON.stringify(entry)\<close>.
  The values modelled here have no cycles, so the \<open>catch\<close> branch (1024) is never taken.
\<close>

definition utf8_size :: "string \<Rightarrow> int" where
  "utf8_size s = (\<Sum>c\<leftarrow>s. if (of_char c :: nat) < 128 then 1 else 2)"

definition entry_js :: "CacheEntry \<Rightarrow> js" where
  "entry_js e = JObj [(''data'', data e), (''timestamp'', JNum (timestamp e)),
                      (''expiresAt'', JNum (expiresAt e)), (''version'', JNum (version e))]"

definition estimateSize :: "CacheEntry \<Rightarrow> int" where
  "estimateSize e = utf8_size (template (JSON_stringify (entry_js e)))"

definition db_delete :: "string \<Rightarrow> CacheManager \<Rightarrow> CacheManager" where
  "db_delete key c = c\<lparr>db := map_option (\<lambda>m. m(key := None)) (db c)\<rparr>"

definition db_put :: "string \<Rightarrow> CacheEntry \<Rightarrow> CacheManager \<Rightarrow> CacheManager" where
  "db_put key e c = c\<lparr>db := map_option (\<lambda>m. m(key \<mapsto> e)) (db c)\<rparr>"

definition db_get :: "CacheManager \<Rightarrow> string \<Rightarrow> CacheEntry option" where
  "db_get c key = (case db c of None \<Rightarrow> None | Some m \<Rightarrow> m key)"

text \<open>
  \<open>evictLRU\<close>: the entries sorted by \<open>timestamp\<close> (the sort is stable), the first
  \<open>floor(length * 0.2)\<close> of them deleted from both layers.
\<close>

definition evict_one :: "string \<times> CacheEntry \<Rightarrow> CacheManager \<Rightarrow> CacheManager" where
  "evict_one p c =
     db_delete (fst p)
       (c\<lparr>memoryCache := AList.delete (fst p) (memoryCache c),
          currentMemorySize := currentMemorySize c - estimateSize (snd p)\<rparr>)"

definition evictLRU :: "CacheManager \<Rightarrow> CacheManager" where
  "evictLRU c =
     (let entries = sort_key (\<lambda>p. timestamp (snd p)) (memoryCache c);
          toEvict = length entries div 5
      in fold evict_one (take toEvict entries) c)"

text \<open>
  \<open>set\<close>: the entry is built, the byte count of an entry it replaces is given back, a fifth of
  the memory layer is evicted when the budget would be exceeded, and the entry is written to
  memory and then to the durable layer.
\<close>

definition new_entry :: "int \<Rightarrow> js \<Rightarrow> int option \<Rightarrow> int option \<Rightarrow> CacheEntry" where
  "new_entry now d opt_ttl opt_version =
     (let ttl = (case opt_ttl of None \<Rightarrow> defaultTTL | Some t \<Rightarrow> t)
      in \<lparr>data = d, timestamp = now, expiresAt = now + ttl,
          version = (case opt_version of None \<Rightarrow> 1 | Some v \<Rightarrow> v)\<rparr>)"

definition set_memory :: "string \<Rightarrow> CacheEntry \<Rightarrow> CacheManager \<Rightarrow> CacheManager" where
  "set_memory key entry c =
     (let size = estimateSize entry;
          c1 = (case map_of (memoryCache c) key of
                  None \<Rightarrow> c
                | Some existingEntry \<Rightarrow>
                    c\<lparr>currentMemorySize := currentMemorySize c - estimateSize existingEntry\<rparr>);
          c2 = (if currentMemorySize c1 + size > maxMemorySize then evictLRU c1 else c1)
      in c2\<lparr>memoryCache := AList.update key entry (memoryCache c2),
             currentMemorySize := currentMemorySize c2 + size\<rparr>)"

definition set_cache :: "int \<Rightarrow> string \<Rightarrow> js \<Rightarrow> int option \<Rightarrow> int option \<Rightarrow> CacheManager \<Rightarrow> CacheManager" where
  "set_cache now key d opt_ttl opt_version c =
     (let entry = new_entry now d opt_ttl opt_version
      in db_put key entry (set_memory key entry c))"

definition get_cache :: "int \<Rightarrow> string \<Rightarrow> CacheManager \<Rightarrow> js option \<times> CacheManager" where
  "get_cache now key c =
     (case map_of (memoryCache c) key of
        None \<Rightarrow> (None, c)
      | Some entry \<Rightarrow>
          if now > expiresAt entry
          then (None, c\<lparr>memoryCache := AList.delete key (memoryCache c),
                          currentMemorySize := currentMemorySize c - estimateSize entry\<rparr>)
          else (Some (data entry), c))"

text \<open>
  \<open>getAsync\<close>: the memory layer first; an expired memory entry is dropped and the lookup goes
  on to the durable layer, whose live entry is copied back into memory (the byte count is
  not adjusted) and whose expired entry is deleted.
\<close>

definition getAsync_db :: "int \<Rightarrow> string \<Rightarrow> CacheManager \<Rightarrow> js option \<times> CacheManager" where
  "getAsync_db now key c =
     (case db_get c key of
        None \<Rightarrow> (None, c)
      | Some entry \<Rightarrow>
          if now \<le> expiresAt entry
          then (Some (data entry), c\<lparr>memoryCache := AList.update key entry (memoryCache c)\<rparr>)
          else (None, db_delete key c))"

definition getAsync :: "int \<Rightarrow> string \<Rightarrow> CacheManager \<Rightarrow> js option \<times> CacheManager" where
  "getAsync now key c =
     (case map_of (memoryCache c) key of
        None \<Rightarrow> getAsync_db now key c
      | Some memoryEntry \<Rightarrow>
          if now > expiresAt memoryEntry
          then getAsync_db now key
                 (c\<lparr>memoryCache := AList.delete key (memoryCache c),
                    currentMemorySize := currentMemorySize c - estimateSize memoryEntry\<rparr>)
          else (Some (data memoryEntry), c))"

definition delete_cache :: "string \<Rightarrow> CacheManager \<Rightarrow> CacheManager" where
  "delete_cache key c =
     db_delete key
       (case map_of (memoryCache c) key of
          None \<Rightarrow> c
        | Some entry \<Rightarrow>
            c\<lparr>currentMemorySize := currentMemorySize c - estimateSize entry,
              memoryCache := AList.delete key (memoryCache c)\<rparr>)"

definition clear_cache :: "CacheManager \<Rightarrow> CacheManager" where
  "clear_cache c = c\<lparr>memoryCache := [], currentMemorySize := 0, db := map_option (\<lambda>m. Map.empty) (db c)\<rparr>"

subsection \<open>Facts about the two layers\<close>





lemma memory_set_memory: "map_of (memoryCache (set_memory key e c)) key = Some e"
  by (simp add: set_memory_def Let_def update_conv')

lemma memory_db_put [simp]: "memoryCache (db_put key e c) = memoryCache c"
  by (simp add: db_put_def)

lemma memory_db_delete [simp]: "memoryCache (db_delete key c) = memoryCache c"
  by (simp add: db_delete_def)


lemma db_get_db_delete: "db_get (db_delete key c) key = None"
  by (cases "db c") (simp_all add: db_get_def db_delete_def)

lemma memory_after_set:
  "map_of (memoryCache (set_cache now key d opt_ttl opt_version c)) key =
     Some (new_entry now d opt_ttl opt_version)"
  by (simp add: set_cache_def Let_def memory_set_memory)


lemma expiresAt_new_entry [simp]: "expiresAt (new_entry now d (Some ttl) ov) = now + ttl"
  by (simp add: new_entry_def)

lemma data_new_entry [simp]: "data (new_entry now d ot ov) = d"
  by (simp add: new_entry_def Let_def)

lemma db_get_cache [simp]: "db (snd (get_cache t key c)) = db c"
  by (simp add: get_cache_def split: option.splits)

lemma db_get_get_cache [simp]: "db_get (snd (get_cache t key c)) key' = db_get c key'"
  by (simp add: db_get_def)




subsection \<open>Expiry\<close>




section \<open>Error handler (services/errorHandler.ts)\<close>

text \<open>
  Property access \<open>v.name\<close> on a value that is neither \<open>null\<close> nor \<open>undefined\<close>, for the
  names the code reads (\<open>message\<close>, \<open>field\<close>, \<open>comments\<close>, \<open>files\<close>, ...): none of them is a
  built-in property of a string, an array, a number or a date, so only an object can have one.
\<close>

definition nullish :: "js \<Rightarrow> bool" where
  "nullish v = (v = JUndefined \<or> v = JNull)"

definition get_prop :: "js \<Rightarrow> string \<Rightarrow> js" where
  "get_prop v name =
     (case v of
        JObj ps \<Rightarrow> (case map_of ps name of None \<Rightarrow> JUndefined | Some x \<Rightarrow> x)
      | _ \<Rightarrow> JUndefined)"

text \<open>Optional chaining \<open>v?.name\<close> and the default \<open>a || b\<close>.\<close>

definition opt_prop :: "js \<Rightarrow> string \<Rightarrow> js" where
  "opt_prop v name = (if nullish v then JUndefined else get_prop v name)"

definition or_else :: "js \<Rightarrow> js \<Rightarrow> js" where
  "or_else a b = (if truthy a then a else b)"

record AxiosRequestConfig =
  cfg_method :: string
  cfg_url :: string
  cfg_params :: js
  cfg_data :: js
  cfg_retry :: bool
  cfg_retryCount :: "nat option"

record AxiosResponse =
  resp_status :: nat
  resp_etag :: "string option"
  resp_cache_control :: "string option"
  resp_data :: js

text \<open>
  An \<open>AxiosError\<close>: its \<open>code\<close>, its \<open>message\<close>, the response when the server answered and the
  configuration of the failed attempt.
\<close>

record AxiosError =
  err_code :: "string option"
  err_message :: string
  err_response :: "AxiosResponse option"
  err_config :: AxiosRequestConfig

text \<open>
  \<open>ErrorDetails\<close> with the fields that are read again: \<open>code\<close>, \<open>message\<close>, \<open>field\<close> and
  \<open>context.status\<close>. The stack, the timestamp, the request id and the rest of the context are
  only ever written.
\<close>

record ErrorDetails =
  ed_code :: string
  ed_message :: js
  ed_field :: js
  ed_status :: "nat option"

text \<open>What a rejected promise carries: an \<open>AxiosError\<close>, an \<open>ErrorDetails\<close> object or a \<open>TypeError\<close>.\<close>

datatype thrown =
    ThrownAxiosError AxiosError
  | ThrownErrorDetails ErrorDetails
  | ThrownTypeError string

definition handleAxiosError :: "AxiosError \<Rightarrow> ErrorDetails" where
  "handleAxiosError e =
     (let status = map_option resp_status (err_response e);
          d = (case err_response e of None \<Rightarrow> JUndefined | Some r \<Rightarrow> resp_data r);
          cm =
            (if err_code e = Some ''ECONNABORTED'' \<or> err_code e = Some ''ETIMEDOUT''
               then (''TIMEOUT_ERROR'', JStr ''Request timed out. Please try again.'')
             else if err_code e = Some ''ERR_NETWORK''
               then (''NETWORK_ERROR'', JStr ''Network error. Please check your connection.'')
             else (case status of
                None \<Rightarrow> (''UNKNOWN_ERROR'', JStr ''An unexpected error occurred'')
              | Some st \<Rightarrow>
                 if st = 0 then (''UNKNOWN_ERROR'', JStr ''An unexpected error occurred'')
                 else if st = 400
                   then (''VALIDATION_ERROR'', or_else (opt_prop d ''message'') (JStr ''Invalid request''))
                 else if st = 401 then (''UNAUTHORIZED'', JStr ''Authentication required'')
                 else if st = 403
                   then (''FORBIDDEN'', JStr ''You do not have permission to perform this action'')
                 else if st = 404 then (''NOT_FOUND'', JStr ''Resource not found'')
                 else if st = 409
                   then (''CONFLICT'', or_else (opt_prop d ''message'') (JStr ''Conflict occurred''))
                 else if st = 422
                   then (''VALIDATION_ERROR'', or_else (opt_prop d ''message'') (JStr ''Validation failed''))
                 else if st = 429
                   then (''RATE_LIMIT'', JStr ''Too many requests. Please try again later.'')
                 else if st = 500 then (''SERVER_ERROR'', JStr ''Internal server error'')
                 else if st = 502 \<or> st = 503 \<or> st = 504
                   then (''SERVICE_UNAVAILABLE'', JStr ''Service temporarily unavailable'')
                 else (''HTTP_'' @ string_of_nat st,
                       or_else (opt_prop d ''message'') (JStr (''HTTP error '' @ string_of_nat st)))))
      in \<lparr>ed_code = fst cm, ed_message = snd cm, ed_field = opt_prop d ''field'', ed_status = status\<rparr>)"

definition maxQueueSize :: nat where
  "maxQueueSize = 100"

definition queueError :: "ErrorDetails \<Rightarrow> ErrorDetails list \<Rightarrow> ErrorDetails list" where
  "queueError e q = (let q' = q @ [e] in if length q' > maxQueueSize then tl q' else q')"

section \<open>HTTP client (services/reviewService.ts)\<close>

text \<open>
  The outside of the client. \<open>server i\<close> is what the network does with the \<open>i\<close>-th request
  that is sent: the time it takes and either a response or a failure without one (with the
  error code and message axios gives it). \<open>newDate\<close> is the platform's \<open>Date\<close> constructor.
\<close>

datatype outcome = Responded AxiosResponse | Failed "string option" string

record Exchange =
  elapsed :: int
  result :: outcome

record Env =
  server :: "nat \<Rightarrow> Exchange"
  newDate :: "js \<Rightarrow> js"

text \<open>
  The state the service works on: the cache manager, the error history of the error handler,
  the clock, and a log of the requests sent and of the delays slept.
\<close>

record World =
  cache :: CacheManager
  errorQueue :: "ErrorDetails list"
  clock :: int
  sent :: "AxiosRequestConfig list"
  sleeps :: "int list"

definition maxRetries :: nat where
  "maxRetries = 3"

definition retryDelay :: int where
  "retryDelay = 1000"

definition retryableStatuses :: "nat list" where
  "retryableStatuses = [408, 429, 500, 502, 503, 504]"

definition shouldRetry :: "AxiosError \<Rightarrow> AxiosRequestConfig \<Rightarrow> bool" where
  "shouldRetry e config =
     (if cfg_retry config then False
      else (case map_option resp_status (err_response e) of
              None \<Rightarrow> False
            | Some st \<Rightarrow> if st = 0 then False else st \<in> set retryableStatuses))"

definition getCacheKey :: "AxiosRequestConfig \<Rightarrow> string option" where
  "getCacheKey config =
     (if cfg_url config = [] then None
      else Some (cfg_method config @ '':'' @ cfg_url config @
                 (if truthy (cfg_params config)
                  then '':'' @ template (JSON_stringify (cfg_params config)) else [])))"

text \<open>\<open>getCacheTTL\<close>: the first \<open>max-age=<digits>\<close> of the \<open>cache-control\<close> header, in seconds.\<close>

definition is_digit :: "char \<Rightarrow> bool" where
  "is_digit c = (48 \<le> (of_char c :: nat) \<and> (of_char c :: nat) \<le> 57)"

fun maxAgeMatch :: "string \<Rightarrow> string option" where
  "maxAgeMatch [] = None"
| "maxAgeMatch (c # cs) =
     (if take 8 (c # cs) = ''max-age='' \<and> takeWhile is_digit (drop 8 (c # cs)) \<noteq> []
      then Some (takeWhile is_digit (drop 8 (c # cs)))
      else maxAgeMatch cs)"

definition parseInt :: "string \<Rightarrow> int" where
  "parseInt ds = foldl (\<lambda>n c. 10 * n + (int (of_char c) - 48)) 0 ds"

definition getCacheTTL :: "AxiosResponse \<Rightarrow> int" where
  "getCacheTTL response =
     (case resp_cache_control response of
        None \<Rightarrow> 300000
      | Some cacheControl \<Rightarrow>
          if cacheControl = [] then 300000
          else (case maxAgeMatch cacheControl of
                  None \<Rightarrow> 300000
                | Some ds \<Rightarrow> parseInt ds * 1000))"

text \<open>
  The response interceptor on success: a response with an \<open>etag\<close> header is written to the
  cache under the key of its request.
\<close>

definition response_fulfilled :: "AxiosRequestConfig \<Rightarrow> AxiosResponse \<Rightarrow> World \<Rightarrow> World" where
  "response_fulfilled config response w =
     (if resp_etag response = None \<or> resp_etag response = Some [] then w
      else (case getCacheKey config of
              None \<Rightarrow> w
            | Some cacheKey \<Rightarrow>
                if cacheKey = [] then w
                else w\<lparr>cache := set_cache (clock w) cacheKey (resp_data response)
                                    (Some (getCacheTTL response)) None (cache w)\<rparr>))"

definition handle :: "AxiosError \<Rightarrow> World \<Rightarrow> ErrorDetails \<times> World" where
  "handle e w =
     (let errorDetails = handleAxiosError e
      in (errorDetails, w\<lparr>errorQueue := queueError errorDetails (errorQueue w)\<rparr>))"

text \<open>
  What axios makes of an exchange: a status from 200 to 299 resolves, any other status and a
  failure without a response reject with an \<open>AxiosError\<close> that carries the configuration.
\<close>

definition status_error :: "AxiosRequestConfig \<Rightarrow> AxiosResponse \<Rightarrow> AxiosError" where
  "status_error config r =
     \<lparr>err_code = (if 400 \<le> resp_status r \<and> resp_status r < 500 then Some ''ERR_BAD_REQUEST''
                   else if 500 \<le> resp_status r \<and> resp_status r < 600 then Some ''ERR_BAD_RESPONSE''
                   else None),
      err_message = ''Request failed with status code '' @ string_of_nat (resp_status r),
      err_response = Some r,
      err_config = config\<rparr>"

definition settle :: "AxiosRequestConfig \<Rightarrow> outcome \<Rightarrow> AxiosError + AxiosResponse" where
  "settle config x =
     (case x of
        Responded r \<Rightarrow>
          if 200 \<le> resp_status r \<and> resp_status r < 300 then Inr r else Inl (status_error config r)
      | Failed code msg \<Rightarrow>
          Inl \<lparr>err_code = code, err_message = msg, err_response = None, err_config = config\<rparr>)"

text \<open>
  \<open>api.request\<close> with the response interceptors. The request is sent; a success passes
  through \<open>response_fulfilled\<close>; a failure is retried by \<open>retryRequest\<close> when \<open>shouldRetry\<close>
  allows it and is otherwise handed to the error handler and rejected as \<open>ErrorDetails\<close>.
  \<open>retryRequest\<close> marks the configuration (\<open>_retry = true\<close>), counts the retry, sleeps
  \<open>retryDelay * 2 ^ retryCount\<close> and calls \<open>api.request\<close> with the marked configuration, whose
  fields axios copies into the configuration of the new attempt. The request interceptor adds
  the \<open>Authorization\<close> header and a request id; neither is read by the retry logic or by the
  cache key, and the configuration here does not carry them.
\<close>

function api_request :: "Env \<Rightarrow> AxiosRequestConfig \<Rightarrow> World \<Rightarrow> (thrown + AxiosResponse) \<times> World"
  and retryRequest :: "Env \<Rightarrow> AxiosRequestConfig \<Rightarrow> AxiosError \<Rightarrow> World \<Rightarrow> (thrown + AxiosResponse) \<times> World"
where
  "api_request env config w =
     (let x = server env (length (sent w));
          w1 = w\<lparr>sent := sent w @ [config], clock := clock w + elapsed x\<rparr>
      in case settle config (result x) of
           Inr response \<Rightarrow> (Inr response, response_fulfilled config response w1)
         | Inl e \<Rightarrow>
             if shouldRetry e config then retryRequest env config e w1
             else (let (errorDetails, w2) = handle e w1
                   in (Inl (ThrownErrorDetails errorDetails), w2)))"
| "retryRequest env config e w =
     (let config1 = config\<lparr>cfg_retry := True\<rparr>;
          retryCount = (case cfg_retryCount config1 of None \<Rightarrow> 0 | Some n \<Rightarrow> n)
      in if retryCount \<ge> maxRetries then (Inl (ThrownAxiosError (e\<lparr>err_config := config1\<rparr>)), w)
         else (let config2 = config1\<lparr>cfg_retryCount := Some (retryCount + 1)\<rparr>;
                   delay = retryDelay * 2 ^ retryCount
               in api_request env config2
                    (w\<lparr>clock := clock w + delay, sleeps := sleeps w @ [delay]\<rparr>)))"
  by pat_completeness auto
termination
  by (relation "measure (\<lambda>x. case x of
          Inl (env, config, w) \<Rightarrow> (if cfg_retry config then 1 else 3)
        | Inr (env, config, e, w) \<Rightarrow> 2)")
     (auto simp add: shouldRetry_def split: if_splits)

declare api_request.simps [simp del] retryRequest.simps [simp del]

text \<open>
  The configurations that \<open>api.get(url, {params})\<close>, \<open>api.post(url, data)\<close>,
  \<open>api.patch(url, data)\<close> and \<open>api.delete(url)\<close> start from.
\<close>

definition get_config :: "string \<Rightarrow> js \<Rightarrow> AxiosRequestConfig" where
  "get_config u ps = \<lparr>cfg_method = ''get'', cfg_url = u, cfg_params = ps, cfg_data = JUndefined,
                       cfg_retry = False, cfg_retryCount = None\<rparr>"

definition post_config :: "string \<Rightarrow> js \<Rightarrow> AxiosRequestConfig" where
  "post_config u d = \<lparr>cfg_method = ''post'', cfg_url = u, cfg_params = JUndefined, cfg_data = d,
                       cfg_retry = False, cfg_retryCount = None\<rparr>"

definition patch_config :: "string \<Rightarrow> js \<Rightarrow> AxiosRequestConfig" where
  "patch_config u d = \<lparr>cfg_method = ''patch'', cfg_url = u, cfg_params = JUndefined, cfg_data = d,
                        cfg_retry = False, cfg_retryCount = None\<rparr>"

definition delete_config :: "string \<Rightarrow> AxiosRequestConfig" where
  "delete_config u = \<lparr>cfg_method = ''delete'', cfg_url = u, cfg_params = JUndefined,
                       cfg_data = JUndefined, cfg_retry = False, cfg_retryCount = None\<rparr>"

subsection \<open>The retry cap\<close>

lemma settle_503:
  "resp_status r = 503 \<Longrightarrow> settle config (Responded r) = Inl (status_error config r)"
  by (simp add: settle_def)

lemma shouldRetry_503:
  "resp_status r = 503 \<Longrightarrow> shouldRetry (status_error config r) config = (\<not> cfg_retry config)"
  by (simp add: shouldRetry_def status_error_def retryableStatuses_def)

lemma handle_503:
  "resp_status r = 503 \<Longrightarrow>
     ed_code (handleAxiosError (status_error config r)) = ''SERVICE_UNAVAILABLE''"
  by (simp add: handleAxiosError_def status_error_def Let_def)

lemma api_request_marked_503:
  assumes "cfg_retry config" and "result (server env (length (sent w))) = Responded r"
    and "resp_status r = 503"
  shows "api_request env config w =
     (Inl (ThrownErrorDetails (handleAxiosError (status_error config r))),
      w\<lparr>sent := sent w @ [config], clock := clock w + elapsed (server env (length (sent w))),
        errorQueue := queueError (handleAxiosError (status_error config r)) (errorQueue w)\<rparr>)"
  using assms
  by (simp add: api_request.simps [of env config w] Let_def settle_503 shouldRetry_503 handle_def)

text \<open>Fixtures: a server that answers every request with status 503, and an idle client.\<close>

definition response_503 :: AxiosResponse where
  "response_503 = \<lparr>resp_status = 503, resp_etag = None, resp_cache_control = None, resp_data = JNull\<rparr>"

definition exchange_503 :: "nat \<Rightarrow> Exchange" where
  "exchange_503 i = \<lparr>elapsed = 20, result = Responded response_503\<rparr>"

definition date_of_text :: "js \<Rightarrow> js" where
  "date_of_text v = (case v of JStr s \<Rightarrow> JDate (Some s) | _ \<Rightarrow> JDate None)"

definition always_503 :: Env where
  "always_503 = \<lparr>server = exchange_503, newDate = date_of_text\<rparr>"

definition idle_world :: World where
  "idle_world = \<lparr>cache = new_CacheManager True, errorQueue = [], clock = 0, sent = [], sleeps = []\<rparr>"

text \<open>
  C3. The claim asks for \<open>1 + maxRetries = 4\<close> attempts on a server that always answers 503.
  The client makes two: the attempt and one retry after 1000 ms. The retry carries
  \<open>_retry = true\<close>, so \<open>shouldRetry\<close> refuses a second retry and the failure is handed to the
  error handler, which classifies it as \<open>SERVICE_UNAVAILABLE\<close>.
\<close>

theorem api_request_always_503:
  assumes fresh: "\<not> cfg_retry config" "cfg_retryCount config = None"
    and always: "\<forall>i. \<exists>r. result (server env i) = Responded r \<and> resp_status r = 503"
  shows "\<exists>d w'. api_request env config w = (Inl (ThrownErrorDetails d), w')
        \<and> ed_code d = ''SERVICE_UNAVAILABLE''
        \<and> sent w' = sent w @ [config, config\<lparr>cfg_retry := True, cfg_retryCount := Some 1\<rparr>]
        \<and> sleeps w' = sleeps w @ [1000]"
proof -
  from always obtain r1 where r1:
    "result (server env (length (sent w))) = Responded r1" "resp_status r1 = 503"
    by blast
  from always obtain r2 where r2:
    "result (server env (Suc (length (sent w)))) = Responded r2" "resp_status r2 = 503"
    by blast
  let ?config2 = "config\<lparr>cfg_retry := True, cfg_retryCount := Some 1\<rparr>"
  let ?w1 = "w\<lparr>sent := sent w @ [config],
                 clock := clock w + elapsed (server env (length (sent w)))\<rparr>"
  let ?w2 = "?w1\<lparr>clock := clock ?w1 + 1000, sleeps := sleeps ?w1 @ [1000]\<rparr>"
  have first: "api_request env config w = retryRequest env config (status_error config r1) ?w1"
    using fresh r1
    by (simp add: api_request.simps [of env config w] Let_def settle_503 shouldRetry_503)
  have again: "retryRequest env config (status_error config r1) ?w1 = api_request env ?config2 ?w2"
    using fresh
    by (simp add: retryRequest.simps Let_def maxRetries_def retryDelay_def)
  have last: "api_request env ?config2 ?w2 =
     (Inl (ThrownErrorDetails (handleAxiosError (status_error ?config2 r2))),
      ?w2\<lparr>sent := sent ?w2 @ [?config2],
          clock := clock ?w2 + elapsed (server env (length (sent ?w2))),
          errorQueue := queueError (handleAxiosError (status_error ?config2 r2)) (errorQueue ?w2)\<rparr>)"
    using r2 by (intro api_request_marked_503) simp_all
  show ?thesis
    using first again last handle_503 [OF r2(2), of ?config2] by simp
qed

theorem api_request_always_503_witness:
  "length (sent (snd (api_request always_503 (get_config [] (JObj [])) idle_world))) = 2
   \<and> sleeps (snd (api_request always_503 (get_config [] (JObj [])) idle_world)) = [1000]
   \<and> (\<exists>d. fst (api_request always_503 (get_config [] (JObj [])) idle_world)
             = Inl (ThrownErrorDetails d) \<and> ed_code d = ''SERVICE_UNAVAILABLE'')"
proof -
  have a: "\<not> cfg_retry (get_config [] (JObj []))"
    and b: "cfg_retryCount (get_config [] (JObj [])) = None"
    by (simp_all add: get_config_def)
  have c: "\<forall>i. \<exists>r. result (server always_503 i) = Responded r \<and> resp_status r = 503"
    by (simp add: always_503_def exchange_503_def response_503_def)
  from api_request_always_503 [OF a b c, of idle_world]
  show ?thesis by (auto simp add: idle_world_def)
qed

subsection \<open>Request deduplication\<close>

text \<open>
  \<open>requestWithDeduplication\<close> with promises in flight. A promise is a number. The state holds
  the \<open>requestQueue\<close> map from keys to promises, for each promise the key that its \<open>finally\<close>
  callback deletes, the results of the promises that have settled, and a log of the calls of
  \<open>requestFn\<close>, which is where a network request is made.
\<close>

record 'r Dedup =
  requestQueue :: "(string \<times> nat) list"
  finally_key :: "nat \<rightharpoonup> string"
  settled :: "nat \<rightharpoonup> 'r"
  requested :: "string list"
  next_promise :: nat

definition new_Dedup :: "'r Dedup" where
  "new_Dedup = \<lparr>requestQueue = [], finally_key = Map.empty, settled = Map.empty,
                requested = [], next_promise = 0\<rparr>"

definition requestWithDeduplication :: "string \<Rightarrow> 'r Dedup \<Rightarrow> nat \<times> 'r Dedup" where
  "requestWithDeduplication key q =
     (case map_of (requestQueue q) key of
        Some p \<Rightarrow> (p, q)
      | None \<Rightarrow>
          (let promise = next_promise q
           in (promise,
               q\<lparr>requested := requested q @ [key],
                 finally_key := (finally_key q)(promise \<mapsto> key),
                 requestQueue := AList.update key promise (requestQueue q),
                 next_promise := Suc promise\<rparr>)))"

text \<open>
  The request behind promise \<open>p\<close> settles with \<open>r\<close>, by success or by failure alike: the
  \<open>finally\<close> callback deletes its key from the queue and \<open>p\<close> settles with \<open>r\<close>. A promise
  settles once.
\<close>

definition promise_settles :: "nat \<Rightarrow> 'r \<Rightarrow> 'r Dedup \<Rightarrow> 'r Dedup" where
  "promise_settles p r q =
     (case finally_key q p of
        None \<Rightarrow> q
      | Some key \<Rightarrow>
          (case settled q p of
             Some r' \<Rightarrow> q
           | None \<Rightarrow> q\<lparr>settled := (settled q)(p \<mapsto> r),
                       requestQueue := AList.delete key (requestQueue q)\<rparr>))"

datatype 'r event = Call string | Settle nat 'r

fun step :: "'r event \<Rightarrow> 'r Dedup \<Rightarrow> 'r Dedup" where
  "step (Call key) q = snd (requestWithDeduplication key q)"
| "step (Settle p r) q = promise_settles p r q"

definition run :: "'r event list \<Rightarrow> 'r Dedup \<Rightarrow> 'r Dedup" where
  "run evs q = fold step evs q"

text \<open>
  The invariant of the queue: a key is in the queue exactly when a promise created for it has
  not settled yet, and promises that have not been created have no callback and no result.
\<close>

definition dedup_inv :: "'r Dedup \<Rightarrow> bool" where
  "dedup_inv q =
     ((\<forall>k p. map_of (requestQueue q) k = Some p \<longrightarrow> finally_key q p = Some k \<and> settled q p = None)
    \<and> (\<forall>p k. finally_key q p = Some k \<and> settled q p = None \<longrightarrow> map_of (requestQueue q) k = Some p)
    \<and> (\<forall>p. next_promise q \<le> p \<longrightarrow> finally_key q p = None \<and> settled q p = None))"

lemma dedup_inv_new: "dedup_inv new_Dedup"
  by (simp add: dedup_inv_def new_Dedup_def)

lemma dedup_invD1: "dedup_inv q \<Longrightarrow> map_of (requestQueue q) k = Some p \<Longrightarrow> finally_key q p = Some k \<and> settled q p = None"
  unfolding dedup_inv_def by blast

lemma dedup_invD2: "dedup_inv q \<Longrightarrow> finally_key q p = Some k \<Longrightarrow> settled q p = None \<Longrightarrow> map_of (requestQueue q) k = Some p"
  unfolding dedup_inv_def by blast

lemma dedup_invD3: "dedup_inv q \<Longrightarrow> next_promise q \<le> p \<Longrightarrow> finally_key q p = None \<and> settled q p = None"
  unfolding dedup_inv_def by blast

lemma dedup_inv_call:
  assumes "dedup_inv q"
  shows "dedup_inv (snd (requestWithDeduplication key q))"
proof (cases "map_of (requestQueue q) key")
  case (Some p)
  then show ?thesis using assms by (simp add: requestWithDeduplication_def)
next
  case None
  let ?n = "next_promise q"
  define q' where "q' = q\<lparr>requested := requested q @ [key],
               finally_key := (finally_key q)(?n \<mapsto> key),
               requestQueue := AList.update key ?n (requestQueue q),
               next_promise := Suc ?n\<rparr>"
  have eq: "snd (requestWithDeduplication key q) = q'"
    using None by (simp add: requestWithDeduplication_def Let_def q'_def)
  have sel: "finally_key q' = (finally_key q)(?n \<mapsto> key)" "settled q' = settled q"
    "requestQueue q' = AList.update key ?n (requestQueue q)" "next_promise q' = Suc ?n"
    by (simp_all add: q'_def)
  have n: "finally_key q ?n = None" "settled q ?n = None"
    using dedup_invD3 [OF assms, of ?n] by simp_all
  have a: "finally_key q' p = Some k \<and> settled q' p = None" if "map_of (requestQueue q') k = Some p" for k p
  proof (cases "k = key")
    case True
    with that have "p = ?n" by (simp add: sel update_conv')
    with True n show ?thesis by (simp add: sel)
  next
    case False
    with that have m: "map_of (requestQueue q) k = Some p" by (simp add: sel update_conv')
    from dedup_invD1 [OF assms m] n have "p \<noteq> ?n" by auto
    with dedup_invD1 [OF assms m] show ?thesis by (simp add: sel)
  qed
  have b: "map_of (requestQueue q') k = Some p" if "finally_key q' p = Some k" "settled q' p = None" for k p
  proof (cases "p = ?n")
    case True
    with that show ?thesis by (simp add: sel update_conv')
  next
    case False
    with that have "finally_key q p = Some k" "settled q p = None" by (simp_all add: sel)
    from dedup_invD2 [OF assms this] have m: "map_of (requestQueue q) k = Some p" .
    with None have "k \<noteq> key" by auto
    with m show ?thesis by (simp add: sel update_conv')
  qed
  have c: "finally_key q' p = None \<and> settled q' p = None" if "next_promise q' \<le> p" for p
    using that dedup_invD3 [OF assms, of p] by (simp add: sel)
  have dinv: "dedup_inv q'"
    unfolding dedup_inv_def using a b c by blast
  from dinv show ?thesis by (simp only: eq)
qed

lemma dedup_inv_settles:
  assumes "dedup_inv q"
  shows "dedup_inv (promise_settles p r q)"
proof (cases "finally_key q p")
  case None
  then have "promise_settles p r q = q" by (simp add: promise_settles_def)
  then show ?thesis using assms by simp
next
  case fk: (Some key)
  show ?thesis
  proof (cases "settled q p")
    case (Some r')
    with fk have "promise_settles p r q = q" by (simp add: promise_settles_def)
    then show ?thesis using assms by simp
  next
    case None
    define q' where "q' = q\<lparr>settled := (settled q)(p \<mapsto> r), requestQueue := AList.delete key (requestQueue q)\<rparr>"
    have eq: "promise_settles p r q = q'"
      using None fk by (simp add: promise_settles_def q'_def)
    have sel: "finally_key q' = finally_key q" "settled q' = (settled q)(p \<mapsto> r)"
      "requestQueue q' = AList.delete key (requestQueue q)" "next_promise q' = next_promise q"
      by (simp_all add: q'_def)
    have mp: "map_of (requestQueue q) key = Some p"
      using assms fk None by (rule dedup_invD2)
    have a: "finally_key q' p' = Some k \<and> settled q' p' = None" if "map_of (requestQueue q') k = Some p'" for k p'
    proof -
      have "k \<noteq> key"
      proof
        assume "k = key"
        with that show False by (simp add: sel delete_conv')
      qed
      with that have m: "map_of (requestQueue q) k = Some p'"
        by (simp add: sel delete_conv')
      from dedup_invD1 [OF assms m] have f: "finally_key q p' = Some k" "settled q p' = None" by simp_all
      from f(1) \<open>k \<noteq> key\<close> fk have "p' \<noteq> p" by auto
      with f show ?thesis by (simp add: sel)
    qed
    have b: "map_of (requestQueue q') k = Some p'" if "finally_key q' p' = Some k" "settled q' p' = None" for k p'
    proof -
      have pp: "p' \<noteq> p"
      proof
        assume "p' = p"
        with that(2) show False by (simp add: sel)
      qed
      with that have f: "finally_key q p' = Some k" "settled q p' = None" by (simp_all add: sel)
      from dedup_invD2 [OF assms f] have m: "map_of (requestQueue q) k = Some p'" .
      with mp pp have "k \<noteq> key" by auto
      with m show ?thesis by (simp add: sel delete_conv')
    qed
    have p_lt: "\<not> next_promise q \<le> p"
    proof
      assume "next_promise q \<le> p"
      from dedup_invD3 [OF assms this] fk show False by simp
    qed
    have c: "finally_key q' p' = None \<and> settled q' p' = None" if "next_promise q' \<le> p'" for p'
    proof -
      from that have le: "next_promise q \<le> p'" by (simp add: sel)
      with p_lt have "p' \<noteq> p" by auto
      with dedup_invD3 [OF assms le] show ?thesis by (simp add: sel)
    qed
  have dinv: "dedup_inv q'"
    unfolding dedup_inv_def using a b c by blast
  from dinv show ?thesis by (simp only: eq)
  qed
qed

lemma dedup_inv_step: "dedup_inv q \<Longrightarrow> dedup_inv (step ev q)"
  by (cases ev) (simp_all add: dedup_inv_call dedup_inv_settles)

lemma dedup_inv_run: "dedup_inv q \<Longrightarrow> dedup_inv (run evs q)"
  unfolding run_def by (induction evs arbitrary: q) (simp_all add: dedup_inv_step)


lemma call_pending:
  "map_of (requestQueue q) key = Some p \<Longrightarrow> requestWithDeduplication key q = (p, q)"
  by (simp add: requestWithDeduplication_def)

lemma call_first:
  assumes "map_of (requestQueue q) key = None"
  shows "fst (requestWithDeduplication key q) = next_promise q"
    and "map_of (requestQueue (snd (requestWithDeduplication key q))) key = Some (next_promise q)"
    and "requested (snd (requestWithDeduplication key q)) = requested q @ [key]"
  using assms by (simp_all add: requestWithDeduplication_def Let_def update_conv')

lemma call_other:
  "key' \<noteq> key \<Longrightarrow>
     map_of (requestQueue (snd (requestWithDeduplication key' q))) key = map_of (requestQueue q) key
   \<and> count_list (requested (snd (requestWithDeduplication key' q))) key = count_list (requested q) key"
  by (cases "map_of (requestQueue q) key'")
     (simp_all add: requestWithDeduplication_def Let_def update_conv')

lemma settles_other:
  assumes "dedup_inv q" and "map_of (requestQueue q) key = Some p" and "p' \<noteq> p"
  shows "map_of (requestQueue (promise_settles p' r q)) key = Some p
       \<and> requested (promise_settles p' r q) = requested q"
proof (cases "finally_key q p'")
  case None
  then show ?thesis using assms(2) by (simp add: promise_settles_def)
next
  case fk: (Some key')
  show ?thesis
  proof (cases "settled q p'")
    case (Some r')
    with fk show ?thesis using assms(2) by (simp add: promise_settles_def)
  next
    case None
    from dedup_invD2 [OF assms(1) fk None] have "map_of (requestQueue q) key' = Some p'" .
    with assms(2,3) have "key' \<noteq> key" by auto
    with fk None assms(2) show ?thesis
      by (simp add: promise_settles_def delete_conv')
  qed
qed

lemma settles_own:
  assumes "dedup_inv q" and "map_of (requestQueue q) key = Some p"
  shows "settled (promise_settles p r q) p = Some r
       \<and> map_of (requestQueue (promise_settles p r q)) key = None"
  using dedup_invD1 [OF assms] by (simp add: promise_settles_def delete_conv')

definition settles_of :: "nat \<Rightarrow> 'r event \<Rightarrow> bool" where
  "settles_of p ev = (case ev of Call key \<Rightarrow> False | Settle p' r \<Rightarrow> p' = p)"

lemma pending_step:
  assumes "dedup_inv q" and "map_of (requestQueue q) key = Some p" and "\<not> settles_of p ev"
  shows "map_of (requestQueue (step ev q)) key = Some p
       \<and> count_list (requested (step ev q)) key = count_list (requested q) key"
proof (cases ev)
  case (Call key')
  show ?thesis
  proof (cases "key' = key")
    case True
    with Call assms(2) show ?thesis by (simp add: call_pending)
  next
    case False
    with Call assms(2) call_other [OF False, of q] show ?thesis by simp
  qed
next
  case (Settle p' r)
  with assms(3) have "p' \<noteq> p" by (simp add: settles_of_def)
  from settles_other [OF assms(1,2) this, of r] Settle show ?thesis by simp
qed

lemma pending_run:
  assumes "dedup_inv q" and "map_of (requestQueue q) key = Some p"
    and "\<forall>ev \<in> set evs. \<not> settles_of p ev"
  shows "map_of (requestQueue (run evs q)) key = Some p
       \<and> count_list (requested (run evs q)) key = count_list (requested q) key"
  using assms
proof (induction evs arbitrary: q)
  case Nil
  then show ?case by (simp add: run_def)
next
  case (Cons ev evs)
  from Cons.prems have ns: "\<not> settles_of p ev" and rest: "\<forall>ev \<in> set evs. \<not> settles_of p ev"
    by simp_all
  from pending_step [OF Cons.prems(1,2) ns]
  have m: "map_of (requestQueue (step ev q)) key = Some p"
    and c: "count_list (requested (step ev q)) key = count_list (requested q) key"
    by simp_all
  from Cons.IH [OF dedup_inv_step [OF Cons.prems(1)] m rest] c
  show ?case by (simp add: run_def)
qed

text \<open>
  The mechanism, for one key. From any state the client can reach, let a first call for
  \<open>key\<close> find no entry and get
  promise \<open>p1\<close>. Whatever calls and settlements of other promises happen before \<open>p1\<close> settles,
  a second call for \<open>key\<close> gets the same promise and makes no request, so that exactly one
  request for \<open>key\<close> was made since the first call; and when \<open>p1\<close> settles with a result
  \<open>r\<close>, a success or a failure, both callers' promise carries \<open>r\<close> and the queue no longer
  has \<open>key\<close>.
\<close>

theorem requestWithDeduplication_shares_request:
  assumes reach: "q = run history new_Dedup"
    and first: "map_of (requestQueue q) key = None"
    and call1: "(p1, q1) = requestWithDeduplication key q"
    and between: "\<forall>ev \<in> set evs. \<not> settles_of p1 ev"
    and later: "q2 = run evs q1"
    and call2: "(p2, q3) = requestWithDeduplication key q2"
    and finish: "q4 = promise_settles p1 r q3"
  shows "p2 = p1
       \<and> requested q3 = requested q2
       \<and> count_list (requested q3) key = Suc (count_list (requested q) key)
       \<and> settled q4 p1 = Some r \<and> settled q4 p2 = Some r
       \<and> map_of (requestQueue q4) key = None"
proof -
  have p1: "p1 = fst (requestWithDeduplication key q)"
    and q1: "q1 = snd (requestWithDeduplication key q)"
    using call1 [symmetric] by simp_all
  have inv: "dedup_inv q"
    using reach by (simp add: dedup_inv_run dedup_inv_new)
  have inv1: "dedup_inv q1" using inv q1 by (simp add: dedup_inv_call)
  have m1: "map_of (requestQueue q1) key = Some p1"
    using call_first(1,2) [OF first] p1 q1 by simp
  have c1: "count_list (requested q1) key = Suc (count_list (requested q) key)"
    using call_first(3) [OF first] q1 by simp
  from pending_run [OF inv1 m1 between] later
  have m2: "map_of (requestQueue q2) key = Some p1"
    and c2: "count_list (requested q2) key = count_list (requested q1) key"
    by simp_all
  have inv2: "dedup_inv q2" using inv1 later by (simp add: dedup_inv_run)
  have second: "requestWithDeduplication key q2 = (p1, q2)"
    using m2 by (rule call_pending)
  with call2 [symmetric] have same: "p2 = p1" "q3 = q2" by simp_all
  from settles_own [OF inv2 m2, of r] same c1 c2 finish
  show ?thesis by simp
qed

theorem requestWithDeduplication_shares_request_witness:
  "fst (requestWithDeduplication ''getReviews:{}''
          (run [Call ''other'', Settle 1 ''r1'']
             (snd (requestWithDeduplication ''getReviews:{}'' (new_Dedup :: string Dedup))))) = 0
   \<and> requested (snd (requestWithDeduplication ''getReviews:{}''
          (run [Call ''other'', Settle 1 ''r1'']
             (snd (requestWithDeduplication ''getReviews:{}'' (new_Dedup :: string Dedup))))))
       = [''getReviews:{}'', ''other'']
   \<and> settled (promise_settles 0 ''r0'' (snd (requestWithDeduplication ''getReviews:{}''
          (run [Call ''other'', Settle 1 ''r1'']
             (snd (requestWithDeduplication ''getReviews:{}'' (new_Dedup :: string Dedup))))))) 0
       = Some ''r0''
   \<and> map_of (requestQueue (promise_settles 0 ''r0'' (snd (requestWithDeduplication ''getReviews:{}''
          (run [Call ''other'', Settle 1 ''r1'']
             (snd (requestWithDeduplication ''getReviews:{}'' (new_Dedup :: string Dedup)))))))) 
         ''getReviews:{}'' = None"
proof -
  let ?q = "new_Dedup :: string Dedup"
  let ?c1 = "requestWithDeduplication ''getReviews:{}'' ?q"
  let ?evs = "[Call ''other'', Settle 1 ''r1''] :: string event list"
  let ?c2 = "requestWithDeduplication ''getReviews:{}'' (run ?evs (snd ?c1))"
  have reach: "?q = run [] new_Dedup" by (simp add: run_def)
  have first: "map_of (requestQueue ?q) ''getReviews:{}'' = None" by (simp add: new_Dedup_def)
  have p0: "fst ?c1 = 0"
    by (simp add: requestWithDeduplication_def new_Dedup_def Let_def)
  have between: "\<forall>ev \<in> set ?evs. \<not> settles_of (fst ?c1) ev"
    by (simp add: settles_of_def p0)
  have call1: "(fst ?c1, snd ?c1) = ?c1" and call2: "(fst ?c2, snd ?c2) = ?c2" by simp_all
  from requestWithDeduplication_shares_request
         [OF reach first call1 between refl call2 refl, of "''r0''"]
  have main: "fst ?c2 = fst ?c1
       \<and> requested (snd ?c2) = requested (run ?evs (snd ?c1))
       \<and> settled (promise_settles (fst ?c1) ''r0'' (snd ?c2)) (fst ?c1) = Some ''r0''
       \<and> map_of (requestQueue (promise_settles (fst ?c1) ''r0'' (snd ?c2))) ''getReviews:{}'' = None"
    by simp
  have log: "requested (run ?evs (snd ?c1)) = [''getReviews:{}'', ''other'']"
    by (simp add: run_def requestWithDeduplication_def promise_settles_def new_Dedup_def Let_def)
  from main log p0 show ?thesis by simp
qed

section \<open>Cache keys of the review service (services/reviewService.ts)\<close>

text \<open>
  \<open>getReviews\<close> builds its cache key and its deduplication key from \<open>JSON.stringify(filters)\<close>;
  \<open>getReview\<close> and the write operations use \<open>review:<id>\<close>.
\<close>

definition getReviews_cacheKey :: "js \<Rightarrow> string" where
  "getReviews_cacheKey filters = ''reviews:'' @ template (JSON_stringify filters)"

definition getReviews_requestKey :: "js \<Rightarrow> string" where
  "getReviews_requestKey filters = ''getReviews:'' @ template (JSON_stringify filters)"

definition getReview_cacheKey :: "string \<Rightarrow> string" where
  "getReview_cacheKey rid = ''review:'' @ rid"

text \<open>
  C2. The claim asks that two filter objects with the same properties give the same key
  whatever the order the properties were added in. The key is the serialisation in insertion
  order, so \<open>{status: ['open'], authorId: 'u1'}\<close> and \<open>{authorId: 'u1', status: ['open']}\<close> get
  different keys.
\<close>

theorem getReviews_cacheKey_depends_on_insertion_order:
  "getReviews_cacheKey (JObj [(''status'', JArr [JStr ''open'']), (''authorId'', JStr ''u1'')])
     = ''reviews:{\"status\":[\"open\"],\"authorId\":\"u1\"}''
   \<and> getReviews_cacheKey (JObj [(''authorId'', JStr ''u1''), (''status'', JArr [JStr ''open''])])
     = ''reviews:{\"authorId\":\"u1\",\"status\":[\"open\"]}''
   \<and> getReviews_cacheKey (JObj [(''status'', JArr [JStr ''open'']), (''authorId'', JStr ''u1'')])
     \<noteq> getReviews_cacheKey (JObj [(''authorId'', JStr ''u1''), (''status'', JArr [JStr ''open''])])"
  by code_simp

text \<open>
  C5. The claim takes the key of a call to be its method, its path and its canonicalized
  parameters, and asks for exactly one request when a second call with the same key comes
  while the first is pending. The key that \<open>getReviews\<close> hands to
  \<open>requestWithDeduplication\<close> is \<open>getReviews:\<close> followed by \<open>JSON.stringify(filters)\<close>. Two
  calls whose filters have the same properties in a different order have different keys: the
  second call finds no entry, gets a promise of its own and makes a second request while the
  first is pending.
\<close>

theorem requestWithDeduplication_permuted_filters:
  "getReviews_requestKey (JObj [(''status'', JArr [JStr ''open'']), (''authorId'', JStr ''u1'')])
     = ''getReviews:{\"status\":[\"open\"],\"authorId\":\"u1\"}''
   \<and> getReviews_requestKey (JObj [(''authorId'', JStr ''u1''), (''status'', JArr [JStr ''open''])])
     = ''getReviews:{\"authorId\":\"u1\",\"status\":[\"open\"]}''
   \<and> fst (requestWithDeduplication ''getReviews:{\"status\":[\"open\"],\"authorId\":\"u1\"}''
          (new_Dedup :: string Dedup)) = 0
   \<and> fst (requestWithDeduplication ''getReviews:{\"authorId\":\"u1\",\"status\":[\"open\"]}''
          (snd (requestWithDeduplication ''getReviews:{\"status\":[\"open\"],\"authorId\":\"u1\"}''
             (new_Dedup :: string Dedup)))) = 1
   \<and> requested (snd (requestWithDeduplication ''getReviews:{\"authorId\":\"u1\",\"status\":[\"open\"]}''
          (snd (requestWithDeduplication ''getReviews:{\"status\":[\"open\"],\"authorId\":\"u1\"}''
             (new_Dedup :: string Dedup)))))
       = [''getReviews:{\"status\":[\"open\"],\"authorId\":\"u1\"}'',
          ''getReviews:{\"authorId\":\"u1\",\"status\":[\"open\"]}'']"
proof -
  have keys:
    "getReviews_requestKey (JObj [(''status'', JArr [JStr ''open'']), (''authorId'', JStr ''u1'')])
       = ''getReviews:{\"status\":[\"open\"],\"authorId\":\"u1\"}''"
    "getReviews_requestKey (JObj [(''authorId'', JStr ''u1''), (''status'', JArr [JStr ''open''])])
       = ''getReviews:{\"authorId\":\"u1\",\"status\":[\"open\"]}''"
    by code_simp+
  show ?thesis
    by (simp add: keys) (simp add: requestWithDeduplication_def new_Dedup_def Let_def)
qed

section \<open>Review service (services/reviewService.ts)\<close>

subsection \<open>\<open>transformReview\<close> and \<open>transformComment\<close>\<close>

text \<open>What an object spread \<open>{...v}\<close> copies: the own enumerable properties.\<close>

fun own_props :: "js \<Rightarrow> (string \<times> js) list" where
  "own_props (JObj ps) = ps"
| "own_props (JArr xs) = zip (map string_of_nat [0..<length xs]) xs"
| "own_props (JStr s) = zip (map string_of_nat [0..<length s]) (map (\<lambda>c. JStr [c]) s)"
| "own_props JUndefined = []"
| "own_props JNull = []"
| "own_props (JBool b) = []"
| "own_props (JNum n) = []"
| "own_props (JDate d) = []"

definition set_prop :: "string \<Rightarrow> js \<Rightarrow> (string \<times> js) list \<Rightarrow> (string \<times> js) list" where
  "set_prop name v ps = AList.update name v ps"

text \<open>
  \<open>a.map(f)\<close>: the elements from left to right, the first exception ending the loop; a
  receiver that is not an array has no \<open>map\<close>.
\<close>

fun map_js :: "(js \<Rightarrow> thrown + js) \<Rightarrow> js list \<Rightarrow> thrown + js list" where
  "map_js f [] = Inr []"
| "map_js f (x # xs) =
     (case f x of
        Inl e \<Rightarrow> Inl e
      | Inr y \<Rightarrow> (case map_js f xs of Inl e \<Rightarrow> Inl e | Inr ys \<Rightarrow> Inr (y # ys)))"

definition array_map :: "(js \<Rightarrow> thrown + js) \<Rightarrow> js \<Rightarrow> thrown + js" where
  "array_map f a =
     (case a of
        JArr xs \<Rightarrow> (case map_js f xs of Inl e \<Rightarrow> Inl e | Inr ys \<Rightarrow> Inr (JArr ys))
      | _ \<Rightarrow> Inl (ThrownTypeError
                 (if nullish a then ''Cannot read properties of undefined (reading map)''
                  else ''map is not a function'')))"

text \<open>
  \<open>v?.map(this.m) || []\<close>. When \<open>v\<close> is \<open>null\<close> or \<open>undefined\<close> the call is skipped, argument
  included, and the default is taken. Otherwise the argument \<open>this.m\<close> is evaluated: with
  \<open>this\<close> undefined that is a \<open>TypeError\<close>. The first argument is the method \<open>this.m\<close>, \<open>None\<close>
  when \<open>this\<close> is undefined.
\<close>

definition opt_map_or_empty :: "(js \<Rightarrow> thrown + js) option \<Rightarrow> js \<Rightarrow> thrown + js" where
  "opt_map_or_empty this_m v =
     (if nullish v then Inr (JArr [])
      else (case this_m of
              None \<Rightarrow> Inl (ThrownTypeError ''Cannot read properties of undefined (reading transformComment)'')
            | Some m \<Rightarrow> (case array_map m v of Inl e \<Rightarrow> Inl e | Inr a \<Rightarrow> Inr (or_else a (JArr [])))))"

definition optional_date :: "Env \<Rightarrow> js \<Rightarrow> js" where
  "optional_date env v = (if truthy v then newDate env v else JUndefined)"

text \<open>
  The body of \<open>transformComment\<close>; \<open>this_transformComment\<close> is what \<open>this.transformComment\<close>
  evaluates to in it. Reading \<open>data.createdAt\<close> fails when \<open>data\<close> is \<open>null\<close> or \<open>undefined\<close>.
\<close>

definition transformComment_body :: "(js \<Rightarrow> thrown + js) option \<Rightarrow> Env \<Rightarrow> js \<Rightarrow> thrown + js" where
  "transformComment_body this_transformComment env d =
     (if nullish d then Inl (ThrownTypeError ''Cannot read properties of undefined (reading createdAt)'')
      else (case opt_map_or_empty this_transformComment (get_prop d ''replies'') of
              Inl e \<Rightarrow> Inl e
            | Inr replies \<Rightarrow>
                Inr (JObj (set_prop ''reactions'' (or_else (get_prop d ''reactions'') (JArr []))
                          (set_prop ''replies'' replies
                          (set_prop ''updatedAt'' (newDate env (get_prop d ''updatedAt''))
                          (set_prop ''createdAt'' (newDate env (get_prop d ''createdAt''))
                          (own_props d))))))))"

text \<open>
  \<open>transformComment\<close> as a callback of \<open>map\<close>: the method is passed without its object, so
  \<open>this\<close> is undefined in it. \<open>transformComment\<close> called as \<open>this.transformComment(data)\<close>: in
  it \<open>this.transformComment\<close> is the method, which it hands to \<open>map\<close> as a callback.
\<close>

definition transformComment_callback :: "Env \<Rightarrow> js \<Rightarrow> thrown + js" where
  "transformComment_callback env d = transformComment_body None env d"

definition transformComment :: "Env \<Rightarrow> js \<Rightarrow> thrown + js" where
  "transformComment env d = transformComment_body (Some (transformComment_callback env)) env d"

definition transformReview_body :: "(js \<Rightarrow> thrown + js) option \<Rightarrow> Env \<Rightarrow> js \<Rightarrow> thrown + js" where
  "transformReview_body this_transformComment env d =
     (if nullish d then Inl (ThrownTypeError ''Cannot read properties of undefined (reading createdAt)'')
      else (case opt_map_or_empty this_transformComment (get_prop d ''comments'') of
              Inl e \<Rightarrow> Inl e
            | Inr comments \<Rightarrow>
                Inr (JObj (set_prop ''files'' (or_else (get_prop d ''files'') (JArr []))
                          (set_prop ''comments'' comments
                          (set_prop ''closedAt'' (optional_date env (get_prop d ''closedAt''))
                          (set_prop ''mergedAt'' (optional_date env (get_prop d ''mergedAt''))
                          (set_prop ''dueDate'' (optional_date env (get_prop d ''dueDate''))
                          (set_prop ''updatedAt'' (newDate env (get_prop d ''updatedAt''))
                          (set_prop ''createdAt'' (newDate env (get_prop d ''createdAt''))
                          (own_props d)))))))))))"

definition transformReview_callback :: "Env \<Rightarrow> js \<Rightarrow> thrown + js" where
  "transformReview_callback env d = transformReview_body None env d"

definition transformReview :: "Env \<Rightarrow> js \<Rightarrow> thrown + js" where
  "transformReview env d = transformReview_body (Some (transformComment_callback env)) env d"

subsection \<open>The operations\<close>

text \<open>
  Each operation runs from its call to the settlement of its promise, with no other request
  of the service in flight: \<open>requestWithDeduplication\<close> then finds no entry, calls
  \<open>requestFn\<close> and removes its own entry again, so the queue is empty before and after.
\<close>

definition getReviews_fetch :: "Env \<Rightarrow> js \<Rightarrow> string \<Rightarrow> World \<Rightarrow> (thrown + js) \<times> World" where
  "getReviews_fetch env filters cacheKey w =
     (case api_request env (get_config [] filters) w of
        (Inl e, w1) \<Rightarrow> (Inl e, w1)
      | (Inr response, w1) \<Rightarrow>
          (case array_map (transformReview_callback env) (resp_data response) of
             Inl e \<Rightarrow> (Inl e, w1)
           | Inr reviews \<Rightarrow>
               (Inr reviews,
                w1\<lparr>cache := set_cache (clock w1) cacheKey reviews (Some 300000) None (cache w1)\<rparr>)))"

definition getReviews :: "Env \<Rightarrow> js \<Rightarrow> World \<Rightarrow> (thrown + js) \<times> World" where
  "getReviews env filters w =
     (let cacheKey = getReviews_cacheKey filters;
          look = getAsync (clock w) cacheKey (cache w);
          w1 = w\<lparr>cache := snd look\<rparr>
      in case fst look of
           None \<Rightarrow> getReviews_fetch env filters cacheKey w1
         | Some cached \<Rightarrow>
             if truthy cached then (Inr cached, w1)
             else getReviews_fetch env filters cacheKey w1)"

definition getReview_fetch :: "Env \<Rightarrow> string \<Rightarrow> string \<Rightarrow> World \<Rightarrow> (thrown + js) \<times> World" where
  "getReview_fetch env rid cacheKey w =
     (case api_request env (get_config (''/'' @ rid) JUndefined) w of
        (Inl e, w1) \<Rightarrow> (Inl e, w1)
      | (Inr response, w1) \<Rightarrow>
          (case transformReview env (resp_data response) of
             Inl e \<Rightarrow> (Inl e, w1)
           | Inr review \<Rightarrow>
               (Inr review,
                w1\<lparr>cache := set_cache (clock w1) cacheKey review (Some 600000) None (cache w1)\<rparr>)))"

definition getReview :: "Env \<Rightarrow> string \<Rightarrow> World \<Rightarrow> (thrown + js) \<times> World" where
  "getReview env rid w =
     (let cacheKey = getReview_cacheKey rid;
          look = getAsync (clock w) cacheKey (cache w);
          w1 = w\<lparr>cache := snd look\<rparr>
      in case fst look of
           None \<Rightarrow> getReview_fetch env rid cacheKey w1
         | Some cached \<Rightarrow>
             if truthy cached then (Inr cached, w1)
             else getReview_fetch env rid cacheKey w1)"

definition createReview :: "Env \<Rightarrow> js \<Rightarrow> World \<Rightarrow> (thrown + js) \<times> World" where
  "createReview env review w =
     (case api_request env (post_config [] review) w of
        (Inl e, w1) \<Rightarrow> (Inl e, w1)
      | (Inr response, w1) \<Rightarrow>
          (case transformReview env (resp_data response) of
             Inl e \<Rightarrow> (Inl e, w1)
           | Inr newReview \<Rightarrow>
               (Inr newReview, w1\<lparr>cache := delete_cache ''reviews:{}'' (cache w1)\<rparr>)))"

definition updateReview :: "Env \<Rightarrow> string \<Rightarrow> js \<Rightarrow> World \<Rightarrow> (thrown + js) \<times> World" where
  "updateReview env rid updates w =
     (case api_request env (patch_config (''/'' @ rid) updates) w of
        (Inl e, w1) \<Rightarrow> (Inl e, w1)
      | (Inr response, w1) \<Rightarrow>
          (case transformReview env (resp_data response) of
             Inl e \<Rightarrow> (Inl e, w1)
           | Inr updatedReview \<Rightarrow>
               (Inr updatedReview,
                w1\<lparr>cache := delete_cache ''reviews:{}''
                               (delete_cache (getReview_cacheKey rid) (cache w1))\<rparr>)))"

definition deleteReview :: "Env \<Rightarrow> string \<Rightarrow> World \<Rightarrow> (thrown + unit) \<times> World" where
  "deleteReview env rid w =
     (case api_request env (delete_config (''/'' @ rid)) w of
        (Inl e, w1) \<Rightarrow> (Inl e, w1)
      | (Inr response, w1) \<Rightarrow>
          (Inr (),
           w1\<lparr>cache := delete_cache ''reviews:{}''
                          (delete_cache (getReview_cacheKey rid) (cache w1))\<rparr>))"

definition addComment :: "Env \<Rightarrow> string \<Rightarrow> js \<Rightarrow> World \<Rightarrow> (thrown + js) \<times> World" where
  "addComment env reviewId comment w =
     (case api_request env (post_config (''/'' @ reviewId @ ''/comments'') comment) w of
        (Inl e, w1) \<Rightarrow> (Inl e, w1)
      | (Inr response, w1) \<Rightarrow>
          (case transformComment env (resp_data response) of
             Inl e \<Rightarrow> (Inl e, w1)
           | Inr newComment \<Rightarrow>
               (Inr newComment,
                w1\<lparr>cache := delete_cache (getReview_cacheKey reviewId) (cache w1)\<rparr>)))"

definition updateComment :: "Env \<Rightarrow> string \<Rightarrow> string \<Rightarrow> js \<Rightarrow> World \<Rightarrow> (thrown + js) \<times> World" where
  "updateComment env reviewId commentId updates w =
     (case api_request env
             (patch_config (''/'' @ reviewId @ ''/comments/'' @ commentId) updates) w of
        (Inl e, w1) \<Rightarrow> (Inl e, w1)
      | (Inr response, w1) \<Rightarrow>
          (case transformComment env (resp_data response) of
             Inl e \<Rightarrow> (Inl e, w1)
           | Inr updatedComment \<Rightarrow>
               (Inr updatedComment,
                w1\<lparr>cache := delete_cache (getReview_cacheKey reviewId) (cache w1)\<rparr>)))"

subsection \<open>Invalidation after \<open>updateReview\<close>\<close>

lemma api_request_ok:
  assumes "result (server env (length (sent w))) = Responded r"
    and "200 \<le> resp_status r" and "resp_status r < 300" and "resp_etag r = None"
  shows "api_request env config w =
     (Inr r, w\<lparr>sent := sent w @ [config],
               clock := clock w + elapsed (server env (length (sent w)))\<rparr>)"
  using assms
  by (simp add: api_request.simps [of env config w] Let_def settle_def response_fulfilled_def)

lemma getAsync_live:
  "map_of (memoryCache c) key = Some e \<Longrightarrow> t \<le> expiresAt e \<Longrightarrow>
     getAsync t key c = (Some (data e), c)"
  by (simp add: getAsync_def)

lemma getAsync_absent:
  "map_of (memoryCache c) key = None \<Longrightarrow> db_get c key = None \<Longrightarrow> getAsync t key c = (None, c)"
  by (simp add: getAsync_def getAsync_db_def)

lemma memory_delete_other:
  "key' \<noteq> key \<Longrightarrow> map_of (memoryCache (delete_cache key' c)) key = map_of (memoryCache c) key"
  by (simp add: delete_cache_def delete_conv' split: option.splits)

lemma memory_delete_same: "map_of (memoryCache (delete_cache key c)) key = None"
  by (simp add: delete_cache_def delete_conv' split: option.splits)

lemma db_get_delete_same: "db_get (delete_cache key c) key = None"
  by (simp add: delete_cache_def db_get_db_delete)

lemma db_get_delete_other:
  "key' \<noteq> key \<Longrightarrow> db_get (delete_cache key' c) key = db_get c key"
  by (cases "db c") (simp_all add: delete_cache_def db_get_def db_delete_def split: option.splits)

text \<open>
  The part of the invalidation that \<open>updateReview\<close> does perform: when it succeeds, the
  review's own entry \<open>review:<id>\<close> is in neither layer.
\<close>

lemma updateReview_deletes_own_entry:
  assumes "updateReview env rid updates w = (Inr r, w')"
  shows "map_of (memoryCache (cache w')) (getReview_cacheKey rid) = None
       \<and> db_get (cache w') (getReview_cacheKey rid) = None"
proof -
  have ne: "''reviews:{}'' \<noteq> getReview_cacheKey rid"
    by (simp add: getReview_cacheKey_def)
  from assms have "\<exists>c1.
    cache w' = delete_cache ''reviews:{}'' (delete_cache (getReview_cacheKey rid) c1)"
    by (auto simp add: updateReview_def split: prod.splits sum.splits)
  then show ?thesis
    using ne
    by (auto simp add: memory_delete_other memory_delete_same db_get_delete_other
          db_get_delete_same)
qed

text \<open>
  A run of the service: the server answers the list request with one review, the \<open>PATCH\<close> with
  the updated review, and any later request with the updated list.
\<close>

definition filters_open :: js where
  "filters_open = JObj [(''status'', JArr [JStr ''open''])]"

definition review_old :: js where
  "review_old = JObj [(''id'', JStr ''r1''), (''title'', JStr ''old''), (''status'', JStr ''open''),
     (''createdAt'', JStr ''2025-01-01T00:00:00.000Z''), (''updatedAt'', JStr ''2025-01-01T00:00:00.000Z'')]"

definition review_new :: js where
  "review_new = JObj [(''id'', JStr ''r1''), (''title'', JStr ''new''), (''status'', JStr ''open''),
     (''createdAt'', JStr ''2025-01-01T00:00:00.000Z''), (''updatedAt'', JStr ''2025-02-02T00:00:00.000Z'')]"

definition ok_response :: "js \<Rightarrow> Exchange" where
  "ok_response d = \<lparr>elapsed = 20, result = Responded \<lparr>resp_status = 200, resp_etag = None, resp_cache_control = None, resp_data = d\<rparr>\<rparr>"

definition review_server :: "nat \<Rightarrow> Exchange" where
  "review_server i = (if i = 0 then ok_response (JArr [review_old])
                      else if i = 1 then ok_response review_new
                      else ok_response (JArr [review_new]))"

definition review_env :: Env where
  "review_env = \<lparr>server = review_server, newDate = date_of_text\<rparr>"

definition after_list :: World where
  "after_list = snd (getReviews review_env filters_open idle_world)"

definition after_update :: World where
  "after_update = snd (updateReview review_env ''r1'' (JObj [(''title'', JStr ''new'')]) after_list)"


text \<open>The two reviews as \<open>transformReview\<close> returns them.\<close>

definition stored_old :: js where
  "stored_old = JObj
         [(''id'', JStr ''r1''), (''title'', JStr ''old''),
          (''status'', JStr ''open''),
          (''createdAt'', JDate (Some ''2025-01-01T00:00:00.000Z'')),
          (''updatedAt'', JDate (Some ''2025-01-01T00:00:00.000Z'')),
          (''dueDate'', JUndefined), (''mergedAt'', JUndefined),
          (''closedAt'', JUndefined), (''comments'', JArr []),
          (''files'', JArr [])]"

definition stored_new :: js where
  "stored_new = JObj
       [(''id'', JStr ''r1''), (''title'', JStr ''new''),
        (''status'', JStr ''open''),
        (''createdAt'', JDate (Some ''2025-01-01T00:00:00.000Z'')),
        (''updatedAt'', JDate (Some ''2025-02-02T00:00:00.000Z'')),
        (''dueDate'', JUndefined), (''mergedAt'', JUndefined),
        (''closedAt'', JUndefined), (''comments'', JArr []),
        (''files'', JArr [])]"

lemma key_open: "getReviews_cacheKey filters_open = ''reviews:{\"status\":[\"open\"]}''"
  unfolding filters_open_def by code_simp

lemma transform_old: "transformReview_callback review_env review_old = Inr stored_old"
  by (simp add: transformReview_callback_def transformReview_body_def review_old_def stored_old_def
      review_env_def date_of_text_def nullish_def get_prop_def opt_map_or_empty_def set_prop_def
      or_else_def optional_date_def)

lemma transform_new: "transformReview review_env review_new = Inr stored_new"
  by (simp add: transformReview_def transformReview_body_def review_new_def stored_new_def
      review_env_def date_of_text_def nullish_def get_prop_def opt_map_or_empty_def set_prop_def
      or_else_def optional_date_def)

lemma after_list_facts:
  "fst (getReviews review_env filters_open idle_world) = Inr (JArr [stored_old])"
  "clock after_list = 20"
  "length (sent after_list) = 1"
  "map_of (memoryCache (cache after_list)) ''reviews:{\"status\":[\"open\"]}''
     = Some (new_entry 20 (JArr [stored_old]) (Some 300000) None)"
proof -
  have miss: "getAsync 0 ''reviews:{\"status\":[\"open\"]}'' (new_CacheManager True)
      = (None, new_CacheManager True)"
    by (rule getAsync_absent) (simp_all add: new_CacheManager_def db_get_def)
  have srv: "result (server review_env 0) = Responded \<lparr>resp_status = 200, resp_etag = None, resp_cache_control = None, resp_data = JArr [review_old]\<rparr>"
     "elapsed (server review_env 0) = 20"
    by (simp_all add: review_env_def review_server_def ok_response_def)
  have api: "api_request review_env (get_config [] filters_open) idle_world =
      (Inr \<lparr>resp_status = 200, resp_etag = None, resp_cache_control = None, resp_data = JArr [review_old]\<rparr>,
       idle_world\<lparr>sent := [get_config [] filters_open], clock := 20\<rparr>)"
    using api_request_ok [of review_env idle_world _ "get_config [] filters_open"] srv
    by (simp add: idle_world_def)
  have run: "getReviews review_env filters_open idle_world =
      (Inr (JArr [stored_old]),
       idle_world\<lparr>sent := [get_config [] filters_open], clock := 20,
          cache := set_cache 20 ''reviews:{\"status\":[\"open\"]}'' (JArr [stored_old]) (Some 300000) None (new_CacheManager True)\<rparr>)"
    using miss api
    by (simp add: getReviews_def Let_def key_open getReviews_fetch_def array_map_def transform_old idle_world_def)
  show "fst (getReviews review_env filters_open idle_world) = Inr (JArr [stored_old])"
    "clock after_list = 20"
    "length (sent after_list) = 1"
    "map_of (memoryCache (cache after_list)) ''reviews:{\"status\":[\"open\"]}''
     = Some (new_entry 20 (JArr [stored_old]) (Some 300000) None)"
    by (simp_all add: after_list_def run memory_after_set)
qed

lemma after_update_facts:
  "fst (updateReview review_env ''r1'' (JObj [(''title'', JStr ''new'')]) after_list) = Inr stored_new"
  "clock after_update = 40"
  "length (sent after_update) = 2"
  "map_of (memoryCache (cache after_update)) ''reviews:{\"status\":[\"open\"]}''
     = Some (new_entry 20 (JArr [stored_old]) (Some 300000) None)"
proof -
  let ?cfg = "patch_config ''/r1'' (JObj [(''title'', JStr ''new'')])"
  have srv: "result (server review_env (length (sent after_list))) = Responded \<lparr>resp_status = 200, resp_etag = None, resp_cache_control = None, resp_data = review_new\<rparr>"
     "elapsed (server review_env (length (sent after_list))) = 20"
    by (simp_all add: after_list_facts review_env_def review_server_def ok_response_def)
  have api: "api_request review_env ?cfg after_list =
      (Inr \<lparr>resp_status = 200, resp_etag = None, resp_cache_control = None, resp_data = review_new\<rparr>,
       after_list\<lparr>sent := sent after_list @ [?cfg], clock := 40\<rparr>)"
    using api_request_ok [of review_env after_list _ ?cfg] srv
    by (simp add: after_list_facts)
  have run: "updateReview review_env ''r1'' (JObj [(''title'', JStr ''new'')]) after_list =
      (Inr stored_new,
       after_list\<lparr>sent := sent after_list @ [?cfg], clock := 40,
          cache := delete_cache ''reviews:{}'' (delete_cache ''review:r1'' (cache after_list))\<rparr>)"
    using api
    by (simp add: updateReview_def transform_new getReview_cacheKey_def)
  show "fst (updateReview review_env ''r1'' (JObj [(''title'', JStr ''new'')]) after_list) = Inr stored_new"
  "clock after_update = 40"
  "length (sent after_update) = 2"
  "map_of (memoryCache (cache after_update)) ''reviews:{\"status\":[\"open\"]}''
     = Some (new_entry 20 (JArr [stored_old]) (Some 300000) None)"
    by (simp_all add: after_update_def run memory_delete_other after_list_facts)
qed

text \<open>
  C1. The claim asks that after a successful \<open>updateReview\<close> every list read misses the cache.
  \<open>updateReview\<close> deletes \<open>review:<id>\<close> and the one list key \<open>reviews:{}\<close>. In the run above
  the list was read with the filter \<open>{status: ['open']}\<close>, so after the update the same read is
  served from the cache: it returns the list with the old review and sends no request.
\<close>

theorem updateReview_keeps_filtered_list_entry:
  "fst (updateReview review_env ''r1'' (JObj [(''title'', JStr ''new'')]) after_list) = Inr stored_new
   \<and> fst (getReviews review_env filters_open after_update) = Inr (JArr [stored_old])
   \<and> sent (snd (getReviews review_env filters_open after_update)) = sent after_update
   \<and> length (sent after_update) = 2"
proof -
  have hit: "getAsync 40 ''reviews:{\"status\":[\"open\"]}'' (cache after_update)
      = (Some (JArr [stored_old]), cache after_update)"
    using getAsync_live [OF after_update_facts(4), of 40] by simp
  have "getReviews review_env filters_open after_update = (Inr (JArr [stored_old]), after_update)"
    using hit by (simp add: getReviews_def Let_def key_open after_update_facts)
  then show ?thesis by (simp add: after_update_facts)
qed

subsection \<open>Collections of the reviews that are returned\<close>

text \<open>
  A comment has its collections when \<open>replies\<close> and \<open>reactions\<close> are arrays and every reply
  has its collections; a review when \<open>comments\<close> and \<open>files\<close> are arrays and every comment
  has its collections.
\<close>

definition is_array :: "js \<Rightarrow> bool" where
  "is_array v = (case v of JArr xs \<Rightarrow> True | _ \<Rightarrow> False)"

definition elements :: "js \<Rightarrow> js list" where
  "elements v = (case v of JArr xs \<Rightarrow> xs | _ \<Rightarrow> [])"

lemma size_map_of: "map_of ps k = Some v \<Longrightarrow> size v < size (JObj ps)"
  by (induction ps) (auto split: if_splits)

lemma size_element: "x \<in> set xs \<Longrightarrow> size x < size (JArr xs)"
  by (induction xs) auto

lemma size_reply:
  assumes "x \<in> set (elements (get_prop c name))"
  shows "size x < size c"
proof (cases c)
  case (JObj ps)
  show ?thesis
  proof (cases "map_of ps name")
    case None
    with JObj assms show ?thesis by (simp add: get_prop_def elements_def)
  next
    case (Some v)
    with JObj assms have "x \<in> set (elements v)" by (simp add: get_prop_def)
    then obtain xs where v: "v = JArr xs" and x: "x \<in> set xs"
      by (cases v) (simp_all add: elements_def)
    from size_element [OF x] size_map_of [OF Some] v JObj show ?thesis by simp
  qed
qed (use assms in \<open>simp_all add: get_prop_def elements_def\<close>)

function comment_ok :: "js \<Rightarrow> bool" where
  "comment_ok c =
     (is_array (get_prop c ''replies'') \<and> is_array (get_prop c ''reactions'')
      \<and> list_all comment_ok (elements (get_prop c ''replies'')))"
  by pat_completeness auto
termination
  by (relation "measure size") (auto simp add: size_reply)

declare comment_ok.simps [simp del]

definition review_ok :: "js \<Rightarrow> bool" where
  "review_ok r =
     (is_array (get_prop r ''comments'') \<and> is_array (get_prop r ''files'')
      \<and> list_all comment_ok (elements (get_prop r ''comments'')))"

definition reviews_ok :: "js \<Rightarrow> bool" where
  "reviews_ok v = (is_array v \<and> list_all review_ok (elements v))"

text \<open>
  What is asked of the API: in a review of a response \<open>files\<close> is an array or left out, and so
  is \<open>reactions\<close> in each of its comments. Nothing is asked of \<open>comments\<close> and \<open>replies\<close>.
\<close>

definition absent_or_array :: "js \<Rightarrow> bool" where
  "absent_or_array v = (nullish v \<or> is_array v)"

definition raw_review_shaped :: "js \<Rightarrow> bool" where
  "raw_review_shaped d =
     (absent_or_array (get_prop d ''files'')
      \<and> list_all (\<lambda>c. absent_or_array (get_prop c ''reactions'')) (elements (get_prop d ''comments'')))"

definition response_shaped :: "js \<Rightarrow> bool" where
  "response_shaped v = (case v of JArr ds \<Rightarrow> list_all raw_review_shaped ds | _ \<Rightarrow> raw_review_shaped v)"

definition api_shaped :: "Env \<Rightarrow> bool" where
  "api_shaped env = (\<forall>i r. result (server env i) = Responded r \<longrightarrow> response_shaped (resp_data r))"

lemma get_set_prop:
  "get_prop (JObj (set_prop name v ps)) name' = (if name' = name then v else get_prop (JObj ps) name')"
  by (simp add: get_prop_def set_prop_def update_conv')

lemma or_else_array: "absent_or_array v \<Longrightarrow> is_array (or_else v (JArr []))"
  by (cases v) (auto simp add: absent_or_array_def or_else_def is_array_def nullish_def)

lemma opt_map_None:
  "opt_map_or_empty None v = Inr a \<Longrightarrow> a = JArr []"
  by (simp add: opt_map_or_empty_def split: if_splits)

lemma map_js_Inr:
  "map_js f xs = Inr ys \<Longrightarrow> list_all2 (\<lambda>x y. f x = Inr y) xs ys"
  by (induction xs arbitrary: ys) (auto split: sum.splits)

lemma opt_map_Some:
  assumes "opt_map_or_empty (Some f) v = Inr a"
  shows "\<exists>ys. a = JArr ys \<and> list_all2 (\<lambda>x y. f x = Inr y) (elements v) ys"
proof (cases "nullish v")
  case True
  with assms have "a = JArr []" by (simp add: opt_map_or_empty_def)
  moreover from True have "elements v = []" by (auto simp add: nullish_def elements_def)
  ultimately show ?thesis by simp
next
  case False
  with assms obtain b where b: "array_map f v = Inr b" and a: "a = or_else b (JArr [])"
    by (auto simp add: opt_map_or_empty_def split: sum.splits)
  from b obtain xs ys where v: "v = JArr xs" and m: "map_js f xs = Inr ys" and bb: "b = JArr ys"
    by (cases v) (auto simp add: array_map_def split: sum.splits)
  from a bb have "a = JArr ys" by (simp add: or_else_def)
  with map_js_Inr [OF m] v show ?thesis by (simp add: elements_def)
qed

lemma transformComment_callback_ok:
  assumes "transformComment_callback env c = Inr y" and "absent_or_array (get_prop c ''reactions'')"
  shows "comment_ok y"
proof -
  from assms(1) obtain rs where
    rs: "opt_map_or_empty None (get_prop c ''replies'') = Inr rs"
    and y: "y = JObj (set_prop ''reactions'' (or_else (get_prop c ''reactions'') (JArr []))
                          (set_prop ''replies'' rs
                          (set_prop ''updatedAt'' (newDate env (get_prop c ''updatedAt''))
                          (set_prop ''createdAt'' (newDate env (get_prop c ''createdAt''))
                          (own_props c)))))"
    by (auto simp add: transformComment_callback_def transformComment_body_def split: if_splits sum.splits)
  from opt_map_None [OF rs] have rs': "rs = JArr []" .
  have "get_prop y ''replies'' = JArr []"
    by (simp add: y get_set_prop rs')
  moreover have "get_prop y ''reactions'' = or_else (get_prop c ''reactions'') (JArr [])"
    by (simp add: y get_set_prop)
  ultimately show ?thesis
    using or_else_array [OF assms(2)]
    by (simp add: comment_ok.simps [of y] is_array_def elements_def)
qed

lemma transformReview_callback_ok:
  assumes "transformReview_callback env d = Inr r" and "raw_review_shaped d"
  shows "review_ok r"
proof -
  from assms(1) obtain cs where
    cs: "opt_map_or_empty None (get_prop d ''comments'') = Inr cs"
    and r: "r = JObj (set_prop ''files'' (or_else (get_prop d ''files'') (JArr []))
                          (set_prop ''comments'' cs
                          (set_prop ''closedAt'' (optional_date env (get_prop d ''closedAt''))
                          (set_prop ''mergedAt'' (optional_date env (get_prop d ''mergedAt''))
                          (set_prop ''dueDate'' (optional_date env (get_prop d ''dueDate''))
                          (set_prop ''updatedAt'' (newDate env (get_prop d ''updatedAt''))
                          (set_prop ''createdAt'' (newDate env (get_prop d ''createdAt''))
                          (own_props d))))))))"
    by (auto simp add: transformReview_callback_def transformReview_body_def split: if_splits sum.splits)
  from opt_map_None [OF cs] have cs': "cs = JArr []" .
  have "get_prop r ''comments'' = JArr []"
    by (simp add: r get_set_prop cs')
  moreover have "get_prop r ''files'' = or_else (get_prop d ''files'') (JArr [])"
    by (simp add: r get_set_prop)
  ultimately show ?thesis
    using or_else_array [of "get_prop d ''files''"] assms(2)
    by (simp add: review_ok_def raw_review_shaped_def is_array_def elements_def)
qed

lemma transformReview_ok:
  assumes "transformReview env d = Inr r" and "raw_review_shaped d"
  shows "review_ok r"
proof -
  from assms(1) obtain cs where
    cs: "opt_map_or_empty (Some (transformComment_callback env)) (get_prop d ''comments'') = Inr cs"
    and r: "r = JObj (set_prop ''files'' (or_else (get_prop d ''files'') (JArr []))
                          (set_prop ''comments'' cs
                          (set_prop ''closedAt'' (optional_date env (get_prop d ''closedAt''))
                          (set_prop ''mergedAt'' (optional_date env (get_prop d ''mergedAt''))
                          (set_prop ''dueDate'' (optional_date env (get_prop d ''dueDate''))
                          (set_prop ''updatedAt'' (newDate env (get_prop d ''updatedAt''))
                          (set_prop ''createdAt'' (newDate env (get_prop d ''createdAt''))
                          (own_props d))))))))"
    by (auto simp add: transformReview_def transformReview_body_def split: if_splits sum.splits)
  from opt_map_Some [OF cs] obtain ys where ys: "cs = JArr ys"
    and rel: "list_all2 (\<lambda>x y. transformComment_callback env x = Inr y) (elements (get_prop d ''comments'')) ys"
    by blast
  from assms(2) have shaped: "list_all (\<lambda>c. absent_or_array (get_prop c ''reactions'')) (elements (get_prop d ''comments''))"
    by (simp add: raw_review_shaped_def)
  have "list_all comment_ok ys"
    using rel shaped
    by (induction rule: list_all2_induct) (auto intro: transformComment_callback_ok)
  moreover have "get_prop r ''comments'' = JArr ys"
    by (simp add: r get_set_prop ys)
  moreover have "get_prop r ''files'' = or_else (get_prop d ''files'') (JArr [])"
    by (simp add: r get_set_prop)
  ultimately show ?thesis
    using or_else_array [of "get_prop d ''files''"] assms(2)
    by (simp add: review_ok_def raw_review_shaped_def is_array_def elements_def)
qed


text \<open>
  What is asked of the cache: an entry under a key \<open>reviews:...\<close> holds a list of such reviews
  and an entry under a key \<open>review:...\<close> one such review. The service keeps it so.
\<close>

definition entry_ok :: "string \<Rightarrow> js \<Rightarrow> bool" where
  "entry_ok key d =
     ((take 8 key = ''reviews:'' \<longrightarrow> reviews_ok d) \<and> (take 7 key = ''review:'' \<longrightarrow> review_ok d))"

definition cache_ok :: "CacheManager \<Rightarrow> bool" where
  "cache_ok c =
     (\<forall>key e. map_of (memoryCache c) key = Some e \<or> db_get c key = Some e \<longrightarrow> entry_ok key (data e))"

lemma cache_okI:
  assumes "\<And>key e. map_of (memoryCache c) key = Some e \<Longrightarrow> entry_ok key (data e)"
    and "\<And>key e. db_get c key = Some e \<Longrightarrow> entry_ok key (data e)"
  shows "cache_ok c"
  unfolding cache_ok_def using assms by blast

lemma cache_ok_memory: "cache_ok c \<Longrightarrow> map_of (memoryCache c) key = Some e \<Longrightarrow> entry_ok key (data e)"
  unfolding cache_ok_def by blast

lemma cache_ok_db: "cache_ok c \<Longrightarrow> db_get c key = Some e \<Longrightarrow> entry_ok key (data e)"
  unfolding cache_ok_def by blast

lemma db_get_db_delete_Some: "db_get (db_delete key' c) key = Some e \<Longrightarrow> db_get c key = Some e"
  by (cases "db c") (auto simp add: db_get_def db_delete_def split: if_splits)

lemma db_get_memory_update [simp]:
  "db_get (c\<lparr>memoryCache := m\<rparr>) key = db_get c key"
  "db_get (c\<lparr>currentMemorySize := n\<rparr>) key = db_get c key"
  by (simp_all add: db_get_def)

lemma evict_one_memory:
  "map_of (memoryCache (evict_one p c)) key = Some e \<Longrightarrow> map_of (memoryCache c) key = Some e"
  by (auto simp add: evict_one_def delete_conv' split: if_splits)

lemma evict_one_db: "db_get (evict_one p c) key = Some e \<Longrightarrow> db_get c key = Some e"
  unfolding evict_one_def by (drule db_get_db_delete_Some) simp

lemma fold_evict_memory:
  "map_of (memoryCache (fold evict_one ps c)) key = Some e \<Longrightarrow> map_of (memoryCache c) key = Some e"
  by (induction ps arbitrary: c) (auto dest: evict_one_memory)

lemma fold_evict_db: "db_get (fold evict_one ps c) key = Some e \<Longrightarrow> db_get c key = Some e"
  by (induction ps arbitrary: c) (auto dest: evict_one_db)

lemma evictLRU_memory:
  "map_of (memoryCache (evictLRU c)) key = Some e \<Longrightarrow> map_of (memoryCache c) key = Some e"
  unfolding evictLRU_def Let_def by (rule fold_evict_memory)

lemma evictLRU_db: "db_get (evictLRU c) key = Some e \<Longrightarrow> db_get c key = Some e"
  unfolding evictLRU_def Let_def by (rule fold_evict_db)

lemma set_memory_memory:
  assumes "map_of (memoryCache (set_memory key e c)) k = Some e'"
  shows "(k = key \<and> e' = e) \<or> map_of (memoryCache c) k = Some e'"
proof (cases "k = key")
  case True
  with assms memory_set_memory [of key e c] show ?thesis by simp
next
  case False
  define c1 where "c1 = (case map_of (memoryCache c) key of
                  None \<Rightarrow> c
                | Some existingEntry \<Rightarrow>
                    c\<lparr>currentMemorySize := currentMemorySize c - estimateSize existingEntry\<rparr>)"
  define c2 where "c2 = (if currentMemorySize c1 + estimateSize e > maxMemorySize then evictLRU c1 else c1)"
  have m1: "memoryCache c1 = memoryCache c" by (simp add: c1_def split: option.splits)
  from assms False have "map_of (memoryCache c2) k = Some e'"
    by (simp add: set_memory_def Let_def c1_def [symmetric] c2_def [symmetric] update_conv')
  then have "map_of (memoryCache c1) k = Some e'"
    by (auto simp add: c2_def dest: evictLRU_memory split: if_splits)
  with m1 show ?thesis by simp
qed

lemma set_memory_db:
  assumes "db_get (set_memory key e c) k = Some e'"
  shows "db_get c k = Some e'"
proof -
  define c1 where "c1 = (case map_of (memoryCache c) key of
                  None \<Rightarrow> c
                | Some existingEntry \<Rightarrow>
                    c\<lparr>currentMemorySize := currentMemorySize c - estimateSize existingEntry\<rparr>)"
  define c2 where "c2 = (if currentMemorySize c1 + estimateSize e > maxMemorySize then evictLRU c1 else c1)"
  have d1: "db_get c1 k = db_get c k" by (simp add: c1_def split: option.splits)
  from assms have "db_get c2 k = Some e'"
    by (simp add: set_memory_def Let_def c1_def [symmetric] c2_def [symmetric])
  then have "db_get c1 k = Some e'"
    by (auto simp add: c2_def dest: evictLRU_db split: if_splits)
  with d1 show ?thesis by simp
qed

lemma db_get_db_put_Some:
  "db_get (db_put key e c) k = Some e' \<Longrightarrow> (k = key \<and> e' = e) \<or> db_get c k = Some e'"
  by (cases "db c") (auto simp add: db_get_def db_put_def split: if_splits)

lemma cache_ok_set_cache:
  assumes "cache_ok c" and "entry_ok key d"
  shows "cache_ok (set_cache t key d ot ov c)"
proof (rule cache_okI)
  fix k e
  assume "map_of (memoryCache (set_cache t key d ot ov c)) k = Some e"
  then have "map_of (memoryCache (set_memory key (new_entry t d ot ov) c)) k = Some e"
    by (simp add: set_cache_def Let_def)
  from set_memory_memory [OF this] assms cache_ok_memory [OF assms(1), of k e]
  show "entry_ok k (data e)" by auto
next
  fix k e
  assume "db_get (set_cache t key d ot ov c) k = Some e"
  then have "db_get (db_put key (new_entry t d ot ov) (set_memory key (new_entry t d ot ov) c)) k = Some e"
    by (simp add: set_cache_def Let_def)
  from db_get_db_put_Some [OF this] show "entry_ok k (data e)"
  proof
    assume "k = key \<and> e = new_entry t d ot ov"
    with assms(2) show ?thesis by simp
  next
    assume "db_get (set_memory key (new_entry t d ot ov) c) k = Some e"
    from cache_ok_db [OF assms(1) set_memory_db [OF this]] show ?thesis .
  qed
qed

lemma cache_ok_drop_memory:
  assumes "cache_ok c"
  shows "cache_ok (c\<lparr>memoryCache := AList.delete key (memoryCache c), currentMemorySize := n\<rparr>)"
proof (rule cache_okI)
  fix k e
  assume "map_of (memoryCache (c\<lparr>memoryCache := AList.delete key (memoryCache c), currentMemorySize := n\<rparr>)) k = Some e"
  then have "map_of (memoryCache c) k = Some e" by (auto simp add: delete_conv' split: if_splits)
  then show "entry_ok k (data e)" by (rule cache_ok_memory [OF assms])
next
  fix k e
  assume "db_get (c\<lparr>memoryCache := AList.delete key (memoryCache c), currentMemorySize := n\<rparr>) k = Some e"
  then have "db_get c k = Some e" by simp
  then show "entry_ok k (data e)" by (rule cache_ok_db [OF assms])
qed

lemma cache_ok_getAsync_db:
  assumes "cache_ok c"
  shows "cache_ok (snd (getAsync_db t key c))"
    and "fst (getAsync_db t key c) = Some d \<Longrightarrow> entry_ok key d"
proof -
  show "cache_ok (snd (getAsync_db t key c))"
  proof (cases "db_get c key")
    case None
    then show ?thesis using assms by (simp add: getAsync_db_def)
  next
    case (Some entry)
    show ?thesis
    proof (cases "t \<le> expiresAt entry")
      case True
      have "cache_ok (c\<lparr>memoryCache := AList.update key entry (memoryCache c)\<rparr>)"
      proof (rule cache_okI)
        fix k e
        assume "map_of (memoryCache (c\<lparr>memoryCache := AList.update key entry (memoryCache c)\<rparr>)) k = Some e"
        then have "(k = key \<and> e = entry) \<or> map_of (memoryCache c) k = Some e"
          by (auto simp add: update_conv' split: if_splits)
        then show "entry_ok k (data e)"
          using cache_ok_db [OF assms Some] cache_ok_memory [OF assms, of k e] by auto
      next
        fix k e
        assume "db_get (c\<lparr>memoryCache := AList.update key entry (memoryCache c)\<rparr>) k = Some e"
        then have "db_get c k = Some e" by simp
        then show "entry_ok k (data e)" by (rule cache_ok_db [OF assms])
      qed
      with Some True show ?thesis by (simp add: getAsync_db_def)
    next
      case False
      have "cache_ok (db_delete key c)"
      proof (rule cache_okI)
        fix k e
        assume "map_of (memoryCache (db_delete key c)) k = Some e"
        then show "entry_ok k (data e)" using cache_ok_memory [OF assms, of k e] by simp
      next
        fix k e
        assume "db_get (db_delete key c) k = Some e"
        from cache_ok_db [OF assms db_get_db_delete_Some [OF this]] show "entry_ok k (data e)" .
      qed
      with Some False show ?thesis by (simp add: getAsync_db_def)
    qed
  qed
  show "entry_ok key d" if "fst (getAsync_db t key c) = Some d"
  proof (cases "db_get c key")
    case None
    with that show ?thesis by (simp add: getAsync_db_def)
  next
    case (Some entry)
    with that have "d = data entry" by (simp add: getAsync_db_def split: if_splits)
    with cache_ok_db [OF assms Some] show ?thesis by simp
  qed
qed

lemma cache_ok_getAsync:
  assumes "cache_ok c"
  shows "cache_ok (snd (getAsync t key c))"
    and "fst (getAsync t key c) = Some d \<Longrightarrow> entry_ok key d"
proof -
  show "cache_ok (snd (getAsync t key c))"
    using assms cache_ok_getAsync_db(1) cache_ok_drop_memory
    by (simp add: getAsync_def split: option.splits)
  show "entry_ok key d" if "fst (getAsync t key c) = Some d"
  proof (cases "map_of (memoryCache c) key")
    case None
    with that cache_ok_getAsync_db(2) [OF assms] show ?thesis by (simp add: getAsync_def)
  next
    case (Some me)
    show ?thesis
    proof (cases "t > expiresAt me")
      case True
      with Some that cache_ok_getAsync_db(2) [OF cache_ok_drop_memory [OF assms]]
      show ?thesis by (simp add: getAsync_def)
    next
      case False
      with Some that have "d = data me" by (simp add: getAsync_def)
      with cache_ok_memory [OF assms Some] show ?thesis by simp
    qed
  qed
qed


definition plain_key :: "AxiosRequestConfig \<Rightarrow> bool" where
  "plain_key config =
     (case getCacheKey config of
        None \<Rightarrow> True
      | Some key \<Rightarrow> take 8 key \<noteq> ''reviews:'' \<and> take 7 key \<noteq> ''review:'')"

lemma entry_ok_plain: "take 8 key \<noteq> ''reviews:'' \<Longrightarrow> take 7 key \<noteq> ''review:'' \<Longrightarrow> entry_ok key d"
  by (simp add: entry_ok_def)

lemma cache_ok_response_fulfilled:
  assumes "cache_ok (cache w)" and "plain_key config"
  shows "cache_ok (cache (response_fulfilled config r w))"
  using assms
  by (auto simp add: response_fulfilled_def plain_key_def cache_ok_set_cache entry_ok_plain
        split: option.splits)

lemma settle_Inr:
  "settle config x = Inr r \<Longrightarrow> x = Responded r"
  by (cases x) (auto simp add: settle_def split: if_splits)

lemma api_request_marked_Inr:
  assumes "api_request env config w = (Inr r, w')" and "cfg_retry config"
  shows "result (server env (length (sent w))) = Responded r
       \<and> w' = response_fulfilled config r
                (w\<lparr>sent := sent w @ [config],
                   clock := clock w + elapsed (server env (length (sent w)))\<rparr>)"
proof (cases "settle config (result (server env (length (sent w))))")
  case (Inl e)
  with assms show ?thesis
    by (simp add: api_request.simps [of env config w] Let_def shouldRetry_def handle_def)
next
  case (Inr r')
  with assms have "r' = r"
    and "w' = response_fulfilled config r
                (w\<lparr>sent := sent w @ [config],
                   clock := clock w + elapsed (server env (length (sent w)))\<rparr>)"
    by (auto simp add: api_request.simps [of env config w] Let_def)
  with settle_Inr [OF Inr] show ?thesis by simp
qed

lemma getCacheKey_retry:
  "getCacheKey (config\<lparr>cfg_retry := b, cfg_retryCount := n\<rparr>) = getCacheKey config"
  by (simp add: getCacheKey_def)

lemma plain_key_retry:
  "plain_key (config\<lparr>cfg_retry := b, cfg_retryCount := n\<rparr>) = plain_key config"
  by (simp add: plain_key_def getCacheKey_retry)

lemma api_request_Inr:
  assumes run: "api_request env config w = (Inr r, w')"
    and ok: "cache_ok (cache w)" and plain: "plain_key config"
  shows "(\<exists>i. result (server env i) = Responded r) \<and> cache_ok (cache w')"
proof (cases "settle config (result (server env (length (sent w))))")
  case (Inr r')
  let ?w1 = "w\<lparr>sent := sent w @ [config],
                 clock := clock w + elapsed (server env (length (sent w)))\<rparr>"
  from Inr run have "r' = r" and w': "w' = response_fulfilled config r ?w1"
    by (auto simp add: api_request.simps [of env config w] Let_def)
  with settle_Inr [OF Inr] have "result (server env (length (sent w))) = Responded r" by simp
  moreover have "cache_ok (cache w')"
    unfolding w' using ok plain by (intro cache_ok_response_fulfilled) simp_all
  ultimately show ?thesis by blast
next
  case (Inl e)
  let ?w1 = "w\<lparr>sent := sent w @ [config],
                 clock := clock w + elapsed (server env (length (sent w)))\<rparr>"
  show ?thesis
  proof (cases "shouldRetry e config")
    case False
    with Inl run show ?thesis
      by (simp add: api_request.simps [of env config w] Let_def handle_def)
  next
    case True
    with Inl run have rr: "retryRequest env config e ?w1 = (Inr r, w')"
      by (simp add: api_request.simps [of env config w] Let_def)
    define k where "k = (case cfg_retryCount config of None \<Rightarrow> 0 | Some n \<Rightarrow> n)"
    let ?config2 = "config\<lparr>cfg_retry := True, cfg_retryCount := Some (k + 1)\<rparr>"
    let ?w2 = "?w1\<lparr>clock := clock ?w1 + retryDelay * 2 ^ k,
                    sleeps := sleeps ?w1 @ [retryDelay * 2 ^ k]\<rparr>"
    from rr have again: "api_request env ?config2 ?w2 = (Inr r, w')"
      by (simp add: retryRequest.simps Let_def k_def split: if_splits)
    from api_request_marked_Inr [OF again]
    have res: "result (server env (length (sent ?w2))) = Responded r"
      and w': "w' = response_fulfilled ?config2 r
                (?w2\<lparr>sent := sent ?w2 @ [?config2],
                   clock := clock ?w2 + elapsed (server env (length (sent ?w2)))\<rparr>)"
      by simp_all
    have "cache_ok (cache w')"
      unfolding w' using ok plain
      by (intro cache_ok_response_fulfilled) (simp_all add: plain_key_retry)
    with res show ?thesis by blast
  qed
qed

lemma raw_review_shaped_response: "response_shaped v \<Longrightarrow> raw_review_shaped v"
  by (cases v)
     (simp_all add: response_shaped_def raw_review_shaped_def get_prop_def absent_or_array_def
        nullish_def elements_def)

lemma array_map_Inr:
  assumes "array_map f v = Inr a"
  shows "\<exists>xs ys. v = JArr xs \<and> a = JArr ys \<and> list_all2 (\<lambda>x y. f x = Inr y) xs ys"
proof -
  from assms obtain xs ys where "v = JArr xs" "map_js f xs = Inr ys" "a = JArr ys"
    by (cases v) (auto simp add: array_map_def split: sum.splits)
  with map_js_Inr show ?thesis by blast
qed

lemma list_key: "take 8 (getReviews_cacheKey flt) = ''reviews:''"
  "take 7 (getReviews_cacheKey flt) \<noteq> ''review:''"
  by (simp_all add: getReviews_cacheKey_def)

lemma review_key: "take 7 (getReview_cacheKey rid) = ''review:''"
  "take 8 (getReview_cacheKey rid) \<noteq> ''reviews:''"
  by (simp_all add: getReview_cacheKey_def)

lemma getReviews_fetch_ok:
  assumes run: "getReviews_fetch env flt (getReviews_cacheKey flt) w = (Inr v, w')"
    and ok: "cache_ok (cache w)" and api: "api_shaped env"
  shows "reviews_ok v \<and> cache_ok (cache w')"
proof -
  from run obtain response w1 where
    req: "api_request env (get_config [] flt) w = (Inr response, w1)"
    and tr: "array_map (transformReview_callback env) (resp_data response) = Inr v"
    and w': "w' = w1\<lparr>cache := set_cache (clock w1) (getReviews_cacheKey flt) v (Some 300000) None (cache w1)\<rparr>"
    by (auto simp add: getReviews_fetch_def split: prod.splits sum.splits)
  have plain: "plain_key (get_config [] flt)"
    by (simp add: plain_key_def getCacheKey_def get_config_def)
  from api_request_Inr [OF req ok plain] obtain i where
    i: "result (server env i) = Responded response" and ok1: "cache_ok (cache w1)" by blast
  from api i have shaped: "response_shaped (resp_data response)"
    by (auto simp add: api_shaped_def)
  from array_map_Inr [OF tr] obtain xs ys where
    xs: "resp_data response = JArr xs" and ys: "v = JArr ys"
    and rel: "list_all2 (\<lambda>x y. transformReview_callback env x = Inr y) xs ys" by blast
  from shaped xs have "list_all raw_review_shaped xs" by (simp add: response_shaped_def)
  with rel have "list_all review_ok ys"
    by (induction rule: list_all2_induct) (auto intro: transformReview_callback_ok)
  then have v: "reviews_ok v" by (simp add: reviews_ok_def ys is_array_def elements_def)
  then have "entry_ok (getReviews_cacheKey flt) v"
    by (simp add: entry_ok_def list_key)
  from cache_ok_set_cache [OF ok1 this] w' have "cache_ok (cache w')" by simp
  with v show ?thesis by simp
qed

lemma getReview_fetch_ok:
  assumes run: "getReview_fetch env rid (getReview_cacheKey rid) w = (Inr v, w')"
    and ok: "cache_ok (cache w)" and api: "api_shaped env"
  shows "review_ok v \<and> cache_ok (cache w')"
proof -
  from run obtain response w1 where
    req: "api_request env (get_config (''/'' @ rid) JUndefined) w = (Inr response, w1)"
    and tr: "transformReview env (resp_data response) = Inr v"
    and w': "w' = w1\<lparr>cache := set_cache (clock w1) (getReview_cacheKey rid) v (Some 600000) None (cache w1)\<rparr>"
    by (auto simp add: getReview_fetch_def split: prod.splits sum.splits)
  have plain: "plain_key (get_config (''/'' @ rid) JUndefined)"
    by (simp add: plain_key_def getCacheKey_def get_config_def)
  from api_request_Inr [OF req ok plain] obtain i where
    i: "result (server env i) = Responded response" and ok1: "cache_ok (cache w1)" by blast
  from api i have "response_shaped (resp_data response)"
    by (auto simp add: api_shaped_def)
  then have "raw_review_shaped (resp_data response)" by (rule raw_review_shaped_response)
  from transformReview_ok [OF tr this] have v: "review_ok v" .
  then have "entry_ok (getReview_cacheKey rid) v"
    by (simp add: entry_ok_def review_key)
  from cache_ok_set_cache [OF ok1 this] w' have "cache_ok (cache w')" by simp
  with v show ?thesis by simp
qed

text \<open>
  C10. Let the API keep \<open>files\<close> and \<open>reactions\<close> arrays where it sends them, and let the
  cache hold reviews with their collections under the review keys. Then every review that
  \<open>getReviews\<close> or \<open>getReview\<close> returns, from the cache or from the network, has arrays for
  \<open>comments\<close> and \<open>files\<close>, every comment in it at any depth has arrays for \<open>replies\<close> and
  \<open>reactions\<close>, and the cache still holds such reviews afterwards.
\<close>

theorem returned_reviews_have_collections:
  assumes ok: "cache_ok (cache w)" and api: "api_shaped env"
  shows "(getReviews env flt w = (Inr v, w') \<longrightarrow> reviews_ok v \<and> cache_ok (cache w'))
       \<and> (getReview env rid w = (Inr r, w'') \<longrightarrow> review_ok r \<and> cache_ok (cache w''))"
proof (rule conjI; rule impI)
  assume run: "getReviews env flt w = (Inr v, w')"
  let ?key = "getReviews_cacheKey flt"
  let ?look = "getAsync (clock w) ?key (cache w)"
  let ?w1 = "w\<lparr>cache := snd ?look\<rparr>"
  have ok1: "cache_ok (cache ?w1)" using cache_ok_getAsync(1) [OF ok] by simp
  show "reviews_ok v \<and> cache_ok (cache w')"
  proof (cases "\<exists>cached. fst ?look = Some cached \<and> truthy cached")
    case True
    then obtain cached where c: "fst ?look = Some cached" "truthy cached" by blast
    with run have "v = cached" "w' = ?w1" by (simp_all add: getReviews_def Let_def)
    moreover from cache_ok_getAsync(2) [OF ok c(1)] have "reviews_ok cached"
      by (simp add: entry_ok_def list_key)
    ultimately show ?thesis using ok1 by simp
  next
    case False
    with run have "getReviews_fetch env flt ?key ?w1 = (Inr v, w')"
      by (auto simp add: getReviews_def Let_def split: option.splits if_splits)
    from getReviews_fetch_ok [OF this ok1 api] show ?thesis .
  qed
next
  assume run: "getReview env rid w = (Inr r, w'')"
  let ?key = "getReview_cacheKey rid"
  let ?look = "getAsync (clock w) ?key (cache w)"
  let ?w1 = "w\<lparr>cache := snd ?look\<rparr>"
  have ok1: "cache_ok (cache ?w1)" using cache_ok_getAsync(1) [OF ok] by simp
  show "review_ok r \<and> cache_ok (cache w'')"
  proof (cases "\<exists>cached. fst ?look = Some cached \<and> truthy cached")
    case True
    then obtain cached where c: "fst ?look = Some cached" "truthy cached" by blast
    with run have "r = cached" "w'' = ?w1" by (simp_all add: getReview_def Let_def)
    moreover from cache_ok_getAsync(2) [OF ok c(1)] have "review_ok cached"
      by (simp add: entry_ok_def review_key)
    ultimately show ?thesis using ok1 by simp
  next
    case False
    with run have "getReview_fetch env rid ?key ?w1 = (Inr r, w'')"
      by (auto simp add: getReview_def Let_def split: option.splits if_splits)
    from getReview_fetch_ok [OF this ok1 api] show ?thesis .
  qed
qed


text \<open>A server whose review has one comment, without \<open>replies\<close>, \<open>reactions\<close> or \<open>files\<close>.\<close>

definition commented_review :: js where
  "commented_review = JObj [(''id'', JStr ''r1''), (''title'', JStr ''old''),
     (''createdAt'', JStr ''2025-01-01T00:00:00.000Z''), (''updatedAt'', JStr ''2025-01-01T00:00:00.000Z''),
     (''comments'', JArr [JObj [(''id'', JStr ''c1''), (''content'', JStr ''hi''),
        (''createdAt'', JStr ''2025-01-01T00:00:00.000Z''), (''updatedAt'', JStr ''2025-01-01T00:00:00.000Z'')]])]"

definition comment_server :: "nat \<Rightarrow> Exchange" where
  "comment_server i = ok_response commented_review"

definition comment_env :: Env where
  "comment_env = \<lparr>server = comment_server, newDate = date_of_text\<rparr>"

text \<open>The review as \<open>getReview\<close> returns it.\<close>

definition stored_commented :: js where
  "stored_commented = JObj
        [(''id'', JStr ''r1''), (''title'', JStr ''old''),
         (''createdAt'', JDate (Some ''2025-01-01T00:00:00.000Z'')),
         (''updatedAt'', JDate (Some ''2025-01-01T00:00:00.000Z'')),
         (''comments'',
          JArr
           [JObj
             [(''id'', JStr ''c1''), (''content'', JStr ''hi''),
              (''createdAt'', JDate (Some ''2025-01-01T00:00:00.000Z'')),
              (''updatedAt'', JDate (Some ''2025-01-01T00:00:00.000Z'')),
              (''replies'', JArr []), (''reactions'', JArr [])]]),
         (''dueDate'', JUndefined), (''mergedAt'', JUndefined),
         (''closedAt'', JUndefined), (''files'', JArr [])]"

lemma transform_commented: "transformReview comment_env commented_review = Inr stored_commented"
  by (simp add: transformReview_def transformReview_body_def commented_review_def
      stored_commented_def comment_env_def date_of_text_def nullish_def get_prop_def
      opt_map_or_empty_def set_prop_def or_else_def optional_date_def array_map_def
      transformComment_callback_def transformComment_body_def)

lemma getReview_commented: "fst (getReview comment_env ''r1'' idle_world) = Inr stored_commented"
proof -
  have miss: "getAsync 0 ''review:r1'' (new_CacheManager True) = (None, new_CacheManager True)"
    by (rule getAsync_absent) (simp_all add: new_CacheManager_def db_get_def)
  have srv: "result (server comment_env 0) = Responded \<lparr>resp_status = 200, resp_etag = None,
        resp_cache_control = None, resp_data = commented_review\<rparr>"
    by (simp add: comment_env_def comment_server_def ok_response_def)
  have api: "api_request comment_env (get_config ''/r1'' JUndefined) idle_world =
      (Inr \<lparr>resp_status = 200, resp_etag = None, resp_cache_control = None,
             resp_data = commented_review\<rparr>,
       idle_world\<lparr>sent := [get_config ''/r1'' JUndefined],
                  clock := elapsed (server comment_env 0)\<rparr>)"
    using api_request_ok [of comment_env idle_world _ "get_config ''/r1'' JUndefined"] srv
    by (simp add: idle_world_def)
  show ?thesis
    using miss api
    by (simp add: getReview_def Let_def getReview_cacheKey_def getReview_fetch_def
          transform_commented idle_world_def)
qed

lemma cache_ok_idle: "cache_ok (cache idle_world)"
  by (simp add: cache_ok_def idle_world_def new_CacheManager_def db_get_def)

lemma raw_review_shaped_plain:
  "map_of ps ''files'' = None \<Longrightarrow> map_of ps ''comments'' = None \<Longrightarrow> raw_review_shaped (JObj ps)"
  by (simp add: raw_review_shaped_def get_prop_def absent_or_array_def nullish_def elements_def)

lemma api_shaped_review_env: "api_shaped review_env"
  by (simp add: api_shaped_def review_env_def review_server_def ok_response_def response_shaped_def
        review_old_def review_new_def raw_review_shaped_plain)

lemma api_shaped_comment_env: "api_shaped comment_env"
  by (simp add: api_shaped_def comment_env_def comment_server_def ok_response_def response_shaped_def
        commented_review_def raw_review_shaped_def get_prop_def absent_or_array_def nullish_def
        elements_def)

theorem returned_reviews_have_collections_witness:
  "fst (getReviews review_env filters_open idle_world) = Inr (JArr [stored_old])
   \<and> reviews_ok (JArr [stored_old])
   \<and> fst (getReview comment_env ''r1'' idle_world) = Inr stored_commented
   \<and> review_ok stored_commented"
proof -
  have a: "getReviews review_env filters_open idle_world
             = (Inr (JArr [stored_old]), snd (getReviews review_env filters_open idle_world))"
    using after_list_facts(1) by (simp add: prod_eq_iff)
  have b: "getReview comment_env ''r1'' idle_world
             = (Inr stored_commented, snd (getReview comment_env ''r1'' idle_world))"
    using getReview_commented by (simp add: prod_eq_iff)
  from returned_reviews_have_collections [OF cache_ok_idle api_shaped_review_env,
         of filters_open "JArr [stored_old]" _ "''r1''"] a
  have "reviews_ok (JArr [stored_old])" by blast
  moreover
  from returned_reviews_have_collections [OF cache_ok_idle api_shaped_comment_env,
         of filters_open _ _ "''r1''" stored_commented] b
  have "review_ok stored_commented" by blast
  ultimately show ?thesis using after_list_facts(1) getReview_commented by simp
qed

text \<open>With \<open>this\<close> undefined a \<open>comments\<close> or \<open>replies\<close> property makes the callback throw.\<close>

lemma transformReview_callback_comments_throw:
  "\<not> nullish d \<Longrightarrow> \<not> nullish (get_prop d ''comments'') \<Longrightarrow>
     transformReview_callback env d
       = Inl (ThrownTypeError ''Cannot read properties of undefined (reading transformComment)'')"
  by (simp add: transformReview_callback_def transformReview_body_def opt_map_or_empty_def)

lemma transformComment_callback_replies_throw:
  "\<not> nullish d \<Longrightarrow> \<not> nullish (get_prop d ''replies'') \<Longrightarrow>
     transformComment_callback env d
       = Inl (ThrownTypeError ''Cannot read properties of undefined (reading transformComment)'')"
  by (simp add: transformComment_callback_def transformComment_body_def opt_map_or_empty_def)

section \<open>Global store (store/reviewStore.ts)\<close>

text \<open>
  The store holds typed reviews, and change detection compares objects by reference. So every
  object and array of a review carries its identity: a reference, which an object literal, a
  spread and \<open>map\<close> take fresh from a counter. The fields of a review or comment that the
  store never looks at are kept together as a property list, which a spread copies.
\<close>

type_synonym ref = nat

datatype Comment =
  Comment (c_ref: ref) (c_id: string) (c_fields: "(string \<times> js) list")
          (c_replies_ref: ref) (c_replies: "Comment list")

record Review =
  r_ref :: ref
  r_id :: string
  r_fields :: "(string \<times> js) list"
  r_files_ref :: ref
  r_files :: "js list"
  r_comments_ref :: ref
  r_comments :: "Comment list"

datatype FilterOptions = FilterOptions (f_ref: ref) (f_props: "(string \<times> js) list")

record ReviewStoreState =
  reviews :: "Review list"
  selectedReview :: "Review option"
  filters :: FilterOptions
  loading :: bool
  error :: "ErrorDetails option"
  lastFetchTime :: "int option"
  cacheVersion :: int

text \<open>
  The store with what surrounds it: the counter that references are taken from and the calls
  the store makes to the cache manager without reading a result, in order.
\<close>

datatype cached_value = CachedReviews "Review list" | CachedReview Review

datatype cache_call = CacheSet string cached_value int | CacheDelete string | CacheClear

record Store =
  state :: ReviewStoreState
  next_ref :: ref
  cache_calls :: "cache_call list"

text \<open>\<open>error instanceof Error ? error.message : fallback\<close>.\<close>

definition message_or :: "thrown \<Rightarrow> string \<Rightarrow> string" where
  "message_or e fallback =
     (case e of
        ThrownAxiosError a \<Rightarrow> err_message a
      | ThrownTypeError m \<Rightarrow> m
      | ThrownErrorDetails d \<Rightarrow> fallback)"

definition store_error :: "string \<Rightarrow> thrown \<Rightarrow> string \<Rightarrow> ErrorDetails" where
  "store_error code e fallback =
     \<lparr>ed_code = code, ed_message = JStr (message_or e fallback), ed_field = JUndefined,
      ed_status = None\<rparr>"

definition filters_cacheKey :: "FilterOptions \<Rightarrow> string" where
  "filters_cacheKey f = ''reviews:'' @ template (JSON_stringify (JObj (f_props f)))"

text \<open>
  \<open>fetchReviews(options, force)\<close>. \<open>cached\<close> is what \<open>cacheManager.getAsync\<close> answers (it is
  asked only without \<open>force\<close>), \<open>fetched\<close> how \<open>reviewService.getReviews\<close> settles (it is
  called only after a miss), \<open>now\<close> the clock at the end.
\<close>

definition fetchReviews ::
  "FilterOptions option \<Rightarrow> bool \<Rightarrow> Review list option \<Rightarrow> thrown + Review list \<Rightarrow> int \<Rightarrow> Store \<Rightarrow> Store"
where
  "fetchReviews options force cached fetched now s =
     (let st = state s;
          used = (case options of None \<Rightarrow> filters st | Some f \<Rightarrow> f);
          cacheKey = filters_cacheKey used;
          hit = (if force then None else cached)
      in case hit of
           Some rs \<Rightarrow> s\<lparr>state := st\<lparr>reviews := rs, loading := False\<rparr>\<rparr>
         | None \<Rightarrow>
            (let s1 = s\<lparr>state := st\<lparr>loading := True, error := None\<rparr>\<rparr>
             in case fetched of
                  Inr rs \<Rightarrow>
                    (let s2 = s1\<lparr>cache_calls := cache_calls s1 @ [CacheSet cacheKey (CachedReviews rs) 300000]\<rparr>;
                         currentState = state s2
                     in if f_ref (filters currentState) = f_ref used
                        then s2\<lparr>state := currentState\<lparr>reviews := rs, loading := False,
                                                         lastFetchTime := Some now\<rparr>\<rparr>
                        else s2)
                | Inl e \<Rightarrow>
                    s1\<lparr>state := (state s1)
                         \<lparr>error := Some (store_error ''FETCH_REVIEWS_ERROR'' e ''Failed to fetch reviews''),
                          loading := False\<rparr>\<rparr>))"

definition fetchReview ::
  "string \<Rightarrow> bool \<Rightarrow> Review option \<Rightarrow> thrown + Review \<Rightarrow> Store \<Rightarrow> Review option \<times> Store"
where
  "fetchReview rid force cached fetched s =
     (let st = state s;
          cacheKey = ''review:'' @ rid;
          hit = (if force then None else cached)
      in case hit of
           Some r \<Rightarrow> (Some r, s\<lparr>state := st\<lparr>selectedReview := Some r, loading := False\<rparr>\<rparr>)
         | None \<Rightarrow>
            (let s1 = s\<lparr>state := st\<lparr>loading := True, error := None\<rparr>\<rparr>
             in case fetched of
                  Inr review \<Rightarrow>
                    (Some review,
                     s1\<lparr>cache_calls := cache_calls s1 @ [CacheSet cacheKey (CachedReview review) 600000],
                        state := (state s1)\<lparr>selectedReview := Some review, loading := False\<rparr>\<rparr>)
                | Inl e \<Rightarrow>
                    (None,
                     s1\<lparr>state := (state s1)
                          \<lparr>error := Some (store_error ''FETCH_REVIEW_ERROR'' e ''Failed to fetch review''),
                           loading := False\<rparr>\<rparr>)))"

text \<open>
  \<open>updateReview(id, updates)\<close> of the store; \<open>updated\<close> is how \<open>reviewService.updateReview\<close>
  settles. A failure is recorded and thrown again.
\<close>

definition updateReview_store ::
  "string \<Rightarrow> thrown + Review \<Rightarrow> Store \<Rightarrow> (thrown + unit) \<times> Store"
where
  "updateReview_store rid updated s =
     (case updated of
        Inr updatedReview \<Rightarrow>
          (let st = state s;
               newReviews = map (\<lambda>r. if r_id r = rid then updatedReview else r) (reviews st);
               newSelected = (case selectedReview st of
                                None \<Rightarrow> None
                              | Some sel \<Rightarrow> if r_id sel = rid then Some updatedReview else Some sel)
           in (Inr (),
               s\<lparr>cache_calls := cache_calls s @
                    [CacheSet ''reviews'' (CachedReviews newReviews) 300000,
                     CacheSet (''review:'' @ rid) (CachedReview updatedReview) 600000],
                 state := st\<lparr>reviews := newReviews, selectedReview := newSelected\<rparr>\<rparr>))
      | Inl e \<Rightarrow>
          (Inl e,
           s\<lparr>state := (state s)
                \<lparr>error := Some (store_error ''UPDATE_REVIEW_ERROR'' e ''Failed to update review'')\<rparr>\<rparr>))"

text \<open>
  The closure \<open>updateComments\<close> of \<open>updateComment\<close>: \<open>comments.map\<close> with a callback that
  returns the updated comment for the comment with the given id, a copy \<open>{...c, replies:
  updateComments(c.replies)}\<close> for any other comment that has replies, and the comment itself
  otherwise. The copy takes a reference for the object and one for the array that \<open>map\<close>
  makes; the last argument and result is the counter. \<open>updateComment\<close> of \<open>ReviewContext\<close>
  declares the same closure for the reviews it holds itself.
\<close>

fun updateComments_callback :: "string \<Rightarrow> Comment \<Rightarrow> Comment \<Rightarrow> ref \<Rightarrow> Comment \<times> ref"
  and updateComments_loop :: "string \<Rightarrow> Comment \<Rightarrow> Comment list \<Rightarrow> ref \<Rightarrow> Comment list \<times> ref"
where
  "updateComments_callback commentId updatedComment (Comment obj i fs arr rs) n =
     (if i = commentId then (updatedComment, n)
      else if length rs > 0 then
        (case updateComments_loop commentId updatedComment rs (n + 2) of
           (rs', n') \<Rightarrow> (Comment n i fs (n + 1) rs', n'))
      else (Comment obj i fs arr rs, n))"
| "updateComments_loop commentId updatedComment [] n = ([], n)"
| "updateComments_loop commentId updatedComment (c # cs) n =
     (case updateComments_callback commentId updatedComment c n of
        (c', n1) \<Rightarrow>
          (case updateComments_loop commentId updatedComment cs n1 of
             (cs', n2) \<Rightarrow> (c' # cs', n2)))"

definition updateComments :: "string \<Rightarrow> Comment \<Rightarrow> Comment list \<Rightarrow> ref \<Rightarrow> (ref \<times> Comment list) \<times> ref" where
  "updateComments commentId updatedComment cs n =
     (case updateComments_loop commentId updatedComment cs (n + 1) of
        (cs', n') \<Rightarrow> ((n, cs'), n'))"

text \<open>
  \<open>addComment\<close> and \<open>updateComment\<close> of the store; the second argument of each is how the
  call of the review service settles. A failure is thrown again and nothing is recorded.
\<close>

definition replace_review :: "string \<Rightarrow> Review \<Rightarrow> ReviewStoreState \<Rightarrow> ReviewStoreState" where
  "replace_review reviewId newReview st =
     st\<lparr>reviews := map (\<lambda>r. if r_id r = reviewId then newReview else r) (reviews st),
        selectedReview := (case selectedReview st of
                             None \<Rightarrow> None
                           | Some sel \<Rightarrow> if r_id sel = reviewId then Some newReview else Some sel)\<rparr>"

definition addComment_store ::
  "string \<Rightarrow> thrown + Comment \<Rightarrow> Store \<Rightarrow> (thrown + unit) \<times> Store"
where
  "addComment_store reviewId added s =
     (case added of
        Inl e \<Rightarrow> (Inl e, s)
      | Inr newComment \<Rightarrow>
          (case find (\<lambda>r. r_id r = reviewId) (reviews (state s)) of
             None \<Rightarrow> (Inr (), s)
           | Some updatedReview \<Rightarrow>
               (let n = next_ref s;
                    newReview = updatedReview\<lparr>r_ref := n, r_comments_ref := n + 1,
                                  r_comments := r_comments updatedReview @ [newComment]\<rparr>
                in (Inr (),
                    s\<lparr>next_ref := n + 2,
                      cache_calls := cache_calls s @ [CacheDelete (''review:'' @ reviewId)],
                      state := replace_review reviewId newReview (state s)\<rparr>))))"

definition updateComment_store ::
  "string \<Rightarrow> string \<Rightarrow> thrown + Comment \<Rightarrow> Store \<Rightarrow> (thrown + unit) \<times> Store"
where
  "updateComment_store reviewId commentId updated s =
     (case updated of
        Inl e \<Rightarrow> (Inl e, s)
      | Inr updatedComment \<Rightarrow>
          (case find (\<lambda>r. r_id r = reviewId) (reviews (state s)) of
             None \<Rightarrow> (Inr (), s)
           | Some updatedReview \<Rightarrow>
               (let n = next_ref s
                in case updateComments commentId updatedComment (r_comments updatedReview) (n + 1) of
                     ((arr, cs'), n') \<Rightarrow>
                       (let newReview = updatedReview\<lparr>r_ref := n, r_comments_ref := arr,
                                          r_comments := cs'\<rparr>
                        in (Inr (),
                            s\<lparr>next_ref := n',
                              cache_calls := cache_calls s @ [CacheDelete (''review:'' @ reviewId)],
                              state := replace_review reviewId newReview (state s)\<rparr>)))))"

subsection \<open>Failures\<close>

text \<open>
  C7. When the call of the review service fails, \<open>fetchReviews\<close>, \<open>fetchReview\<close> and
  \<open>updateReview\<close> of the store set the \<open>error\<close> field and leave \<open>reviews\<close>, \<open>selectedReview\<close>
  and \<open>filters\<close> as they were. The service is called by the two fetches when \<open>force\<close> is set
  or the cache lookup found nothing, and by \<open>updateReview\<close> always; \<open>updateReview\<close> throws the
  failure again.
\<close>

theorem store_failure_keeps_data:
  "error (state (fetchReviews options True cached (Inl e) now s))
       = Some (store_error ''FETCH_REVIEWS_ERROR'' e ''Failed to fetch reviews'')
   \<and> reviews (state (fetchReviews options True cached (Inl e) now s)) = reviews (state s)
   \<and> selectedReview (state (fetchReviews options True cached (Inl e) now s)) = selectedReview (state s)
   \<and> filters (state (fetchReviews options True cached (Inl e) now s)) = filters (state s)
   \<and> error (state (fetchReviews options False None (Inl e) now s))
       = Some (store_error ''FETCH_REVIEWS_ERROR'' e ''Failed to fetch reviews'')
   \<and> reviews (state (fetchReviews options False None (Inl e) now s)) = reviews (state s)
   \<and> selectedReview (state (fetchReviews options False None (Inl e) now s)) = selectedReview (state s)
   \<and> filters (state (fetchReviews options False None (Inl e) now s)) = filters (state s)
   \<and> error (state (snd (fetchReview rid True cached1 (Inl e) s)))
       = Some (store_error ''FETCH_REVIEW_ERROR'' e ''Failed to fetch review'')
   \<and> reviews (state (snd (fetchReview rid True cached1 (Inl e) s))) = reviews (state s)
   \<and> selectedReview (state (snd (fetchReview rid True cached1 (Inl e) s))) = selectedReview (state s)
   \<and> filters (state (snd (fetchReview rid True cached1 (Inl e) s))) = filters (state s)
   \<and> error (state (snd (fetchReview rid False None (Inl e) s)))
       = Some (store_error ''FETCH_REVIEW_ERROR'' e ''Failed to fetch review'')
   \<and> reviews (state (snd (fetchReview rid False None (Inl e) s))) = reviews (state s)
   \<and> selectedReview (state (snd (fetchReview rid False None (Inl e) s))) = selectedReview (state s)
   \<and> filters (state (snd (fetchReview rid False None (Inl e) s))) = filters (state s)
   \<and> fst (updateReview_store rid (Inl e) s) = Inl e
   \<and> error (state (snd (updateReview_store rid (Inl e) s)))
       = Some (store_error ''UPDATE_REVIEW_ERROR'' e ''Failed to update review'')
   \<and> reviews (state (snd (updateReview_store rid (Inl e) s))) = reviews (state s)
   \<and> selectedReview (state (snd (updateReview_store rid (Inl e) s))) = selectedReview (state s)
   \<and> filters (state (snd (updateReview_store rid (Inl e) s))) = filters (state s)"
  by (simp add: fetchReviews_def fetchReview_def updateReview_store_def Let_def)

subsection \<open>The comment tree\<close>

text \<open>
  The objects of a comment tree and of a review: the references of the comment objects and of
  their replies arrays, of the review object and of its \<open>files\<close> and \<open>comments\<close> arrays.
  \<open>nodes\<close> lists the comments of a tree.
\<close>

fun nodes :: "Comment \<Rightarrow> Comment list" where
  "nodes (Comment obj i fs arr rs) = Comment obj i fs arr rs # concat (map nodes rs)"

fun objects :: "Comment \<Rightarrow> ref list" where
  "objects (Comment obj i fs arr rs) = obj # arr # concat (map objects rs)"

definition review_objects :: "Review \<Rightarrow> ref list" where
  "review_objects r =
     r_ref r # r_files_ref r # r_comments_ref r # concat (map objects (r_comments r))"

text \<open>
  \<open>rebuilt_as commentId updatedComment n c c'\<close> says what stands in the new tree at the place of
  the comment \<open>c\<close> of the old tree:
  \<^item> if \<open>c\<close> has the given id, the comment that the service returned, whole: the replies that
    \<open>c\<close> had in the store are not looked at, and those of the returned object take their place;
  \<^item> otherwise, if \<open>c\<close> has no replies, \<open>c\<close> itself, the identical object;
  \<^item> otherwise a new object with the id and the fields of \<open>c\<close> and a new replies array, both
    with a reference taken from the counter at \<open>n\<close> or later, whose elements stand for the
    replies of \<open>c\<close>, one for one and in the same order, in the same way.
\<close>

fun rebuilt_as :: "string \<Rightarrow> Comment \<Rightarrow> ref \<Rightarrow> Comment \<Rightarrow> Comment \<Rightarrow> bool" where
  "rebuilt_as commentId updatedComment n (Comment obj i fs arr rs) c' =
     (if i = commentId then c' = updatedComment
      else if rs = [] then c' = Comment obj i fs arr rs
      else c_id c' = i \<and> c_fields c' = fs \<and> n \<le> c_ref c' \<and> n \<le> c_replies_ref c'
         \<and> list_all2 (rebuilt_as commentId updatedComment n) rs (c_replies c'))"

text \<open>
  The objects and arrays of the new tree that stand for a comment with replies and another id,
  collected along the old tree.
\<close>

fun new_objects :: "string \<Rightarrow> Comment \<Rightarrow> Comment \<Rightarrow> ref list"
  and new_objects_all :: "string \<Rightarrow> Comment list \<Rightarrow> Comment list \<Rightarrow> ref list"
where
  "new_objects commentId (Comment obj i fs arr rs) c' =
     (if i = commentId \<or> rs = [] then []
      else c_ref c' # c_replies_ref c' # new_objects_all commentId rs (c_replies c'))"
| "new_objects_all commentId (c # cs) (c' # cs') =
     new_objects commentId c c' @ new_objects_all commentId cs cs'"
| "new_objects_all commentId [] cs' = []"
| "new_objects_all commentId (c # cs) [] = []"

lemma callback_target:
  "i = cid \<Longrightarrow> updateComments_callback cid uc (Comment obj i fs arr rs) n = (uc, n)"
  by simp

lemma callback_leaf:
  "i \<noteq> cid \<Longrightarrow> updateComments_callback cid uc (Comment obj i fs arr []) n = (Comment obj i fs arr [], n)"
  by simp

lemma callback_copy:
  "i \<noteq> cid \<Longrightarrow> rs \<noteq> [] \<Longrightarrow>
     updateComments_callback cid uc (Comment obj i fs arr rs) n =
       (Comment n i fs (n + 1) (fst (updateComments_loop cid uc rs (n + 2))),
        snd (updateComments_loop cid uc rs (n + 2)))"
  by (simp split: prod.splits)

lemma loop_Cons:
  "updateComments_loop cid uc (c # cs) n =
     (fst (updateComments_callback cid uc c n)
        # fst (updateComments_loop cid uc cs (snd (updateComments_callback cid uc c n))),
      snd (updateComments_loop cid uc cs (snd (updateComments_callback cid uc c n))))"
  by (simp split: prod.splits)

declare updateComments_callback.simps [simp del] updateComments_loop.simps(2) [simp del]

lemma loop_mono_lift:
  assumes "\<And>c n. c \<in> set cs \<Longrightarrow> n \<le> snd (updateComments_callback cid uc c n)"
  shows "n \<le> snd (updateComments_loop cid uc cs n)"
  using assms
proof (induction cs arbitrary: n)
  case Nil
  then show ?case by simp
next
  case (Cons c cs)
  have "n \<le> snd (updateComments_callback cid uc c n)" using Cons.prems by simp
  also have "\<dots> \<le> snd (updateComments_loop cid uc cs (snd (updateComments_callback cid uc c n)))"
    using Cons.prems by (intro Cons.IH) simp
  finally show ?case by (simp add: loop_Cons)
qed

lemma callback_mono: "n \<le> snd (updateComments_callback cid uc c n)"
proof (induction c arbitrary: n)
  case (Comment obj i fs arr rs)
  show ?case
  proof (cases "i = cid")
    case True
    then show ?thesis by (simp add: callback_target)
  next
    case False
    show ?thesis
    proof (cases "rs = []")
      case True
      with False show ?thesis by (simp add: callback_leaf)
    next
      case nonempty: False
      have "n + 2 \<le> snd (updateComments_loop cid uc rs (n + 2))"
        using Comment.IH by (intro loop_mono_lift) simp
      with False nonempty show ?thesis by (simp add: callback_copy)
    qed
  qed
qed

lemma loop_mono: "n \<le> snd (updateComments_loop cid uc cs n)"
  by (rule loop_mono_lift) (rule callback_mono)

text \<open>The new tree stands for the old one, place by place.\<close>

lemma rebuilt_as_lift:
  assumes "\<And>c n. c \<in> set cs \<Longrightarrow> m \<le> n \<Longrightarrow>
             rebuilt_as cid uc m c (fst (updateComments_callback cid uc c n))"
    and "m \<le> n"
  shows "list_all2 (rebuilt_as cid uc m) cs (fst (updateComments_loop cid uc cs n))"
  using assms
proof (induction cs arbitrary: n)
  case Nil
  then show ?case by simp
next
  case (Cons c cs)
  have "m \<le> snd (updateComments_callback cid uc c n)"
    using Cons.prems(2) callback_mono [of n cid uc c] by simp
  then have "list_all2 (rebuilt_as cid uc m) cs
      (fst (updateComments_loop cid uc cs (snd (updateComments_callback cid uc c n))))"
    using Cons.prems(1) by (intro Cons.IH) simp_all
  moreover have "rebuilt_as cid uc m c (fst (updateComments_callback cid uc c n))"
    using Cons.prems by simp
  ultimately show ?case by (simp add: loop_Cons)
qed

lemma callback_rebuilt_as:
  "m \<le> n \<Longrightarrow> rebuilt_as cid uc m c (fst (updateComments_callback cid uc c n))"
proof (induction c arbitrary: n)
  case (Comment obj i fs arr rs)
  show ?case
  proof (cases "i = cid")
    case True
    then show ?thesis by (simp add: callback_target)
  next
    case False
    show ?thesis
    proof (cases "rs = []")
      case True
      with False show ?thesis by (simp add: callback_leaf)
    next
      case nonempty: False
      have "list_all2 (rebuilt_as cid uc m) rs (fst (updateComments_loop cid uc rs (n + 2)))"
        using Comment.IH Comment.prems by (intro rebuilt_as_lift) simp_all
      with False nonempty Comment.prems show ?thesis by (simp add: callback_copy)
    qed
  qed
qed

lemma loop_rebuilt_as:
  "m \<le> n \<Longrightarrow> list_all2 (rebuilt_as cid uc m) cs (fst (updateComments_loop cid uc cs n))"
  by (rule rebuilt_as_lift) (simp_all add: callback_rebuilt_as)

text \<open>
  \<open>allocated n n' ps\<close>: the references \<open>ps\<close> were taken from the counter while it went from
  \<open>n\<close> to \<open>n'\<close>, each of them once.
\<close>

definition allocated :: "ref \<Rightarrow> ref \<Rightarrow> ref list \<Rightarrow> bool" where
  "allocated n n' ps = (distinct ps \<and> (\<forall>p \<in> set ps. n \<le> p \<and> p < n'))"

lemma allocated_Nil: "allocated n n' []"
  by (simp add: allocated_def)

lemma allocated_append:
  "allocated n n1 ps \<Longrightarrow> allocated n1 n2 qs \<Longrightarrow> n \<le> n1 \<Longrightarrow> n1 \<le> n2 \<Longrightarrow> allocated n n2 (ps @ qs)"
  by (fastforce simp add: allocated_def)

lemma allocated_copy:
  "allocated (n + 2) n' ps \<Longrightarrow> n + 2 \<le> n' \<Longrightarrow> allocated n n' (n # (n + 1) # ps)"
  by (fastforce simp add: allocated_def)

lemma allocated_lift:
  assumes "\<And>c n. c \<in> set cs \<Longrightarrow>
      allocated n (snd (updateComments_callback cid uc c n))
        (new_objects cid c (fst (updateComments_callback cid uc c n)))"
  shows "allocated n (snd (updateComments_loop cid uc cs n))
       (new_objects_all cid cs (fst (updateComments_loop cid uc cs n)))"
  using assms
proof (induction cs arbitrary: n)
  case Nil
  then show ?case by (simp add: allocated_Nil)
next
  case (Cons c cs)
  let ?n1 = "snd (updateComments_callback cid uc c n)"
  have a: "allocated n ?n1 (new_objects cid c (fst (updateComments_callback cid uc c n)))"
    using Cons.prems by simp
  have b: "allocated ?n1 (snd (updateComments_loop cid uc cs ?n1))
       (new_objects_all cid cs (fst (updateComments_loop cid uc cs ?n1)))"
    using Cons.prems by (intro Cons.IH) simp
  have "allocated n (snd (updateComments_loop cid uc cs ?n1))
     (new_objects cid c (fst (updateComments_callback cid uc c n))
        @ new_objects_all cid cs (fst (updateComments_loop cid uc cs ?n1)))"
    using a b by (rule allocated_append) (rule callback_mono loop_mono)+
  then show ?case by (simp add: loop_Cons)
qed

lemma callback_allocated:
  "allocated n (snd (updateComments_callback cid uc c n))
     (new_objects cid c (fst (updateComments_callback cid uc c n)))"
proof (induction c arbitrary: n)
  case (Comment obj i fs arr rs)
  show ?case
  proof (cases "i = cid \<or> rs = []")
    case True
    then show ?thesis
      by (cases "i = cid") (simp_all add: callback_target callback_leaf allocated_Nil)
  next
    case False
    then have i: "i \<noteq> cid" and ne: "rs \<noteq> []" by simp_all
    have "allocated (n + 2) (snd (updateComments_loop cid uc rs (n + 2)))
       (new_objects_all cid rs (fst (updateComments_loop cid uc rs (n + 2))))"
      using Comment.IH by (intro allocated_lift) simp
    then have "allocated n (snd (updateComments_loop cid uc rs (n + 2)))
       (n # (n + 1) # new_objects_all cid rs (fst (updateComments_loop cid uc rs (n + 2))))"
      by (rule allocated_copy) (rule loop_mono)
    with i ne show ?thesis by (simp add: callback_copy)
  qed
qed

lemma loop_allocated:
  "allocated n (snd (updateComments_loop cid uc cs n))
     (new_objects_all cid cs (fst (updateComments_loop cid uc cs n)))"
  by (rule allocated_lift) (rule callback_allocated)

lemma find_replaced:
  assumes "find (\<lambda>r. r_id r = reviewId) rs = Some r" and "r_id newReview = reviewId"
  shows "find (\<lambda>r. r_id r = reviewId) (map (\<lambda>r. if r_id r = reviewId then newReview else r) rs)
           = Some newReview"
  using assms by (induction rs) (auto split: if_splits)

lemma reviews_replace_review:
  "reviews (replace_review reviewId newReview st) =
     map (\<lambda>r. if r_id r = reviewId then newReview else r) (reviews st)"
  by (simp add: replace_review_def)

lemma find_id: "find (\<lambda>r. r_id r = reviewId) rs = Some r \<Longrightarrow> r_id r = reviewId"
  by (induction rs) (auto split: if_splits)

lemma updateComment_store_found:
  assumes "find (\<lambda>r. r_id r = reviewId) (reviews (state s)) = Some r"
  shows "updateComment_store reviewId commentId (Inr updatedComment) s =
     (Inr (),
      s\<lparr>next_ref := snd (updateComments_loop commentId updatedComment (r_comments r) (next_ref s + 2)),
        cache_calls := cache_calls s @ [CacheDelete (''review:'' @ reviewId)],
        state := replace_review reviewId
           (r\<lparr>r_ref := next_ref s, r_comments_ref := next_ref s + 1,
              r_comments := fst (updateComments_loop commentId updatedComment (r_comments r) (next_ref s + 2))\<rparr>)
           (state s)\<rparr>)"
  using assms
  by (simp add: updateComment_store_def updateComments_def Let_def split: prod.splits)

text \<open>
  A store with one review. Its comments \<open>c1\<close> and \<open>c2\<close> have one reply each, \<open>c3\<close> and \<open>c4\<close>,
  and \<open>c3\<close> has the reply \<open>c9\<close>. The service returns the edited \<open>c3\<close> without replies.
\<close>

definition example_c9 :: Comment where "example_c9 = Comment 19 ''c9'' [(''content'', JStr ''reply'')] 20 []"
definition example_c3 :: Comment where
  "example_c3 = Comment 13 ''c3'' [(''content'', JStr ''first'')] 14 [example_c9]"
definition example_c1 :: Comment where "example_c1 = Comment 11 ''c1'' [] 12 [example_c3]"
definition example_c4 :: Comment where "example_c4 = Comment 17 ''c4'' [] 18 []"
definition example_c2 :: Comment where "example_c2 = Comment 15 ''c2'' [] 16 [example_c4]"
definition edited_c3 :: Comment where "edited_c3 = Comment 50 ''c3'' [(''content'', JStr ''edited'')] 51 []"

definition example_review :: Review where
  "example_review = \<lparr>r_ref = 1, r_id = ''r1'', r_fields = [(''title'', JStr ''Fix'')], r_files_ref = 2,
     r_files = [], r_comments_ref = 3, r_comments = [example_c1, example_c2]\<rparr>"

definition example_store :: Store where
  "example_store = \<lparr>state = \<lparr>reviews = [example_review], selectedReview = None,
       filters = FilterOptions 0 [], loading = False, error = None, lastFetchTime = None,
       cacheVersion = 1\<rparr>, next_ref = 100, cache_calls = []\<rparr>"

lemmas example_defs = example_c1_def example_c2_def example_c3_def example_c4_def example_c9_def
  edited_c3_def example_review_def example_store_def

lemma example_run:
  "reviews (state (snd (updateComment_store ''r1'' ''c3'' (Inr edited_c3) example_store)))
     = [\<lparr>r_ref = 100, r_id = ''r1'', r_fields = [(''title'', JStr ''Fix'')], r_files_ref = 2,
         r_files = [], r_comments_ref = 101,
         r_comments = [Comment 102 ''c1'' [] 103 [edited_c3], Comment 104 ''c2'' [] 105 [example_c4]]\<rparr>]"
  by (simp add: updateComment_store_def updateComments_def example_defs replace_review_def Let_def
        updateComments_callback.simps updateComments_loop.simps)

text \<open>
  C8 (as amended). Let the review be in the store, let every object of the review have a
  reference below the counter, and let the service call succeed. Then \<open>updateComment\<close> of the
  store puts a review in its place that has the same id and fields and the identical \<open>files\<close>
  array, and whose comments stand for the old ones place by place and in the same order, at
  every depth that the traversal reaches:
  \<^item> a comment with the given id is replaced by the comment object that the service returned,
    with the replies of that object and not those it had in the store;
  \<^item> any other comment without replies is the identical object;
  \<^item> any other comment with replies is a new object with the same id and fields and a new
    replies array, whether it lies on the path to the updated comment or not.

  The review object, its \<open>comments\<close> array and the new objects and arrays of the tree are
  pairwise different, were taken from the counter during the call, and are none of the objects
  of the old review.
\<close>

theorem updateComment_store_sharing:
  assumes found: "find (\<lambda>r. r_id r = reviewId) (reviews (state s)) = Some r"
    and fresh: "\<forall>p \<in> set (review_objects r). p < next_ref s"
    and run: "s' = snd (updateComment_store reviewId commentId (Inr updatedComment) s)"
  shows "\<exists>r'. find (\<lambda>r. r_id r = reviewId) (reviews (state s')) = Some r'
       \<and> r_id r' = r_id r \<and> r_fields r' = r_fields r
       \<and> r_files_ref r' = r_files_ref r \<and> r_files r' = r_files r
       \<and> list_all2 (rebuilt_as commentId updatedComment (next_ref s)) (r_comments r) (r_comments r')
       \<and> distinct (r_ref r' # r_comments_ref r'
                    # new_objects_all commentId (r_comments r) (r_comments r'))
       \<and> (\<forall>p \<in> set (r_ref r' # r_comments_ref r'
                       # new_objects_all commentId (r_comments r) (r_comments r')).
             next_ref s \<le> p \<and> p < next_ref s' \<and> p \<notin> set (review_objects r))"
proof -
  let ?n = "next_ref s"
  let ?cs' = "fst (updateComments_loop commentId updatedComment (r_comments r) (?n + 2))"
  let ?n' = "snd (updateComments_loop commentId updatedComment (r_comments r) (?n + 2))"
  let ?r' = "r\<lparr>r_ref := ?n, r_comments_ref := ?n + 1, r_comments := ?cs'\<rparr>"
  let ?new = "?n # (?n + 1) # new_objects_all commentId (r_comments r) ?cs'"
  have id: "r_id ?r' = reviewId" using find_id [OF found] by simp
  have st: "state s' = replace_review reviewId ?r' (state s)"
    using run updateComment_store_found [OF found] by simp
  have counter: "next_ref s' = ?n'"
    using run updateComment_store_found [OF found] by simp
  have f: "find (\<lambda>r. r_id r = reviewId) (reviews (state s')) = Some ?r'"
    by (simp only: st reviews_replace_review find_replaced [OF found id])
  have places: "list_all2 (rebuilt_as commentId updatedComment ?n) (r_comments r) ?cs'"
    by (rule loop_rebuilt_as) simp
  have "allocated (?n + 2) ?n' (new_objects_all commentId (r_comments r) ?cs')"
    by (rule loop_allocated)
  then have "allocated ?n ?n' ?new"
    by (rule allocated_copy) (rule loop_mono)
  then have different: "distinct ?new" and taken: "\<forall>p \<in> set ?new. ?n \<le> p \<and> p < ?n'"
    unfolding allocated_def by blast+
  from taken fresh have new: "\<forall>p \<in> set ?new. p \<notin> set (review_objects r)"
    by (meson not_le)
  from taken new counter
  have all: "\<forall>p \<in> set ?new. next_ref s \<le> p \<and> p < next_ref s' \<and> p \<notin> set (review_objects r)"
    by simp
  show ?thesis
    using f places different all by (intro exI [of _ ?r']) simp
qed

theorem updateComment_store_sharing_witness:
  "\<exists>r'. find (\<lambda>r. r_id r = ''r1'')
           (reviews (state (snd (updateComment_store ''r1'' ''c3'' (Inr edited_c3) example_store))))
          = Some r'
       \<and> r_id r' = r_id example_review \<and> r_fields r' = r_fields example_review
       \<and> r_files_ref r' = r_files_ref example_review \<and> r_files r' = r_files example_review
       \<and> list_all2 (rebuilt_as ''c3'' edited_c3 (next_ref example_store))
            (r_comments example_review) (r_comments r')
       \<and> distinct (r_ref r' # r_comments_ref r'
                    # new_objects_all ''c3'' (r_comments example_review) (r_comments r'))
       \<and> (\<forall>p \<in> set (r_ref r' # r_comments_ref r'
                       # new_objects_all ''c3'' (r_comments example_review) (r_comments r')).
             next_ref example_store \<le> p
           \<and> p < next_ref (snd (updateComment_store ''r1'' ''c3'' (Inr edited_c3) example_store))
           \<and> p \<notin> set (review_objects example_review))"
proof -
  have found: "find (\<lambda>r. r_id r = ''r1'') (reviews (state example_store)) = Some example_review"
    by (simp add: example_store_def example_review_def)
  have fresh: "\<forall>p \<in> set (review_objects example_review). p < next_ref example_store"
    by (simp add: review_objects_def example_defs)
  show ?thesis
    by (rule updateComment_store_sharing [OF found fresh refl])
qed

text \<open>
  The claim as first stated ("every comment subtree not on the path is referentially
  identical") fails in two ways when \<open>c3\<close>, the reply of \<open>c1\<close>, is updated. The comment \<open>c2\<close>,
  which is not on the path to \<open>c3\<close>, is replaced by a new object (reference 104 instead of 15)
  with a new replies array (105 instead of 16). And \<open>c9\<close>, the reply that \<open>c3\<close> had in the
  store, is not in the new tree: the returned comment takes the place of \<open>c3\<close> with its own
  replies, here none.
\<close>

theorem updateComment_store_off_path_subtrees:
  "r_comments example_review
     = [Comment 11 ''c1'' [] 12 [example_c3], Comment 15 ''c2'' [] 16 [example_c4]]
   \<and> r_comments (reviews (state (snd (updateComment_store ''r1'' ''c3'' (Inr edited_c3) example_store))) ! 0)
     = [Comment 102 ''c1'' [] 103 [edited_c3], Comment 104 ''c2'' [] 105 [example_c4]]
   \<and> c_replies example_c3 = [example_c9]
   \<and> c_replies edited_c3 = []
   \<and> example_c9 \<notin> set (concat (map nodes
         (r_comments (reviews (state (snd (updateComment_store ''r1'' ''c3'' (Inr edited_c3)
            example_store))) ! 0))))"
  by (simp add: example_run) (simp add: example_defs)

subsection \<open>What the comment actions leave alone\<close>

lemma nth_replace_review:
  "i < length (reviews st) \<Longrightarrow> r_id (reviews st ! i) \<noteq> reviewId \<Longrightarrow>
     reviews (replace_review reviewId newReview st) ! i = reviews st ! i"
  by (simp add: replace_review_def)

lemma frame_replace_review:
  "length (reviews (replace_review reviewId newReview st)) = length (reviews st)"
  "filters (replace_review reviewId newReview st) = filters st"
  "cacheVersion (replace_review reviewId newReview st) = cacheVersion st"
  "lastFetchTime (replace_review reviewId newReview st) = lastFetchTime st"
  by (simp_all add: replace_review_def)

lemma addComment_store_state:
  "state (snd (addComment_store reviewId added s)) = state s
   \<or> (\<exists>newReview. state (snd (addComment_store reviewId added s))
          = replace_review reviewId newReview (state s))"
  by (auto simp add: addComment_store_def Let_def split: sum.splits option.splits)

lemma updateComment_store_state:
  "state (snd (updateComment_store reviewId commentId updated s)) = state s
   \<or> (\<exists>newReview. state (snd (updateComment_store reviewId commentId updated s))
          = replace_review reviewId newReview (state s))"
  by (auto simp add: updateComment_store_def Let_def split: sum.splits option.splits prod.splits)

definition same_frame :: "string \<Rightarrow> ReviewStoreState \<Rightarrow> ReviewStoreState \<Rightarrow> bool" where
  "same_frame reviewId st st' =
     (length (reviews st') = length (reviews st)
      \<and> (\<forall>i < length (reviews st). r_id (reviews st ! i) \<noteq> reviewId \<longrightarrow> reviews st' ! i = reviews st ! i)
      \<and> filters st' = filters st \<and> cacheVersion st' = cacheVersion st
      \<and> lastFetchTime st' = lastFetchTime st)"

lemma same_frame_refl: "same_frame reviewId st st"
  by (simp add: same_frame_def)

lemma same_frame_replace: "same_frame reviewId st (replace_review reviewId newReview st)"
  by (simp add: same_frame_def frame_replace_review nth_replace_review)

definition other_review :: Review where
  "other_review = \<lparr>r_ref = 21, r_id = ''r2'', r_fields = [(''title'', JStr ''Other'')], r_files_ref = 22,
     r_files = [], r_comments_ref = 23, r_comments = []\<rparr>"

definition two_review_store :: Store where
  "two_review_store = example_store\<lparr>state := (state example_store)\<lparr>reviews := [example_review, other_review]\<rparr>\<rparr>"

text \<open>
  C9. \<open>addComment\<close> and \<open>updateComment\<close> of the store, however the service call settles, keep
  the number of reviews, leave every review whose id is not \<open>reviewId\<close> as the identical
  element at its index, and do not change \<open>filters\<close>, \<open>cacheVersion\<close> and \<open>lastFetchTime\<close>.
\<close>

theorem comment_actions_frame:
  "length (reviews (state (snd (addComment_store reviewId added s)))) = length (reviews (state s))
   \<and> (\<forall>i < length (reviews (state s)). r_id (reviews (state s) ! i) \<noteq> reviewId \<longrightarrow>
         reviews (state (snd (addComment_store reviewId added s))) ! i = reviews (state s) ! i)
   \<and> filters (state (snd (addComment_store reviewId added s))) = filters (state s)
   \<and> cacheVersion (state (snd (addComment_store reviewId added s))) = cacheVersion (state s)
   \<and> lastFetchTime (state (snd (addComment_store reviewId added s))) = lastFetchTime (state s)
   \<and> length (reviews (state (snd (updateComment_store reviewId commentId updated s))))
       = length (reviews (state s))
   \<and> (\<forall>i < length (reviews (state s)). r_id (reviews (state s) ! i) \<noteq> reviewId \<longrightarrow>
         reviews (state (snd (updateComment_store reviewId commentId updated s))) ! i
           = reviews (state s) ! i)
   \<and> filters (state (snd (updateComment_store reviewId commentId updated s))) = filters (state s)
   \<and> cacheVersion (state (snd (updateComment_store reviewId commentId updated s)))
       = cacheVersion (state s)
   \<and> lastFetchTime (state (snd (updateComment_store reviewId commentId updated s)))
       = lastFetchTime (state s)"
proof -
  have a: "same_frame reviewId (state s) (state (snd (addComment_store reviewId added s)))"
    using addComment_store_state [of reviewId added s]
    by (auto simp add: same_frame_refl same_frame_replace)
  have b: "same_frame reviewId (state s)
             (state (snd (updateComment_store reviewId commentId updated s)))"
    using updateComment_store_state [of reviewId commentId updated s]
    by (auto simp add: same_frame_refl same_frame_replace)
  from a b show ?thesis unfolding same_frame_def by blast
qed

theorem comment_actions_frame_witness:
  "reviews (state (snd (addComment_store ''r1'' (Inr edited_c3) two_review_store))) ! 1 = other_review
   \<and> reviews (state (snd (updateComment_store ''r1'' ''c3'' (Inr edited_c3) two_review_store))) ! 1
       = other_review
   \<and> reviews (state (snd (addComment_store ''r1'' (Inr edited_c3) two_review_store))) ! 0
       \<noteq> example_review"
proof -
  have l: "(1::nat) < length (reviews (state two_review_store))"
    and o: "reviews (state two_review_store) ! 1 = other_review"
    and i: "r_id (reviews (state two_review_store) ! 1) \<noteq> ''r1''"
    by (simp_all add: two_review_store_def example_store_def other_review_def)
  from comment_actions_frame [of "''r1''" "Inr edited_c3" two_review_store "''c3''" "Inr edited_c3"]
  have "reviews (state (snd (addComment_store ''r1'' (Inr edited_c3) two_review_store))) ! 1
          = reviews (state two_review_store) ! 1"
    and "reviews (state (snd (updateComment_store ''r1'' ''c3'' (Inr edited_c3) two_review_store))) ! 1
          = reviews (state two_review_store) ! 1"
    using l i by blast+
  moreover have "reviews (state (snd (addComment_store ''r1'' (Inr edited_c3) two_review_store))) ! 0
      \<noteq> example_review"
    by (simp add: addComment_store_def two_review_store_def example_store_def example_review_def
          other_review_def replace_review_def Let_def)
  ultimately show ?thesis using o by simp
qed

section \<open>Reconciliation loop (hooks/useReviewSync.ts)\<close>

text \<open>
  One tick of the interval callback of \<open>useReviewSync\<close>. The callback reads the two review
  collections and either calls \<open>context.fetchReviews()\<close> or does nothing.
\<close>

datatype sync_action = ContextFetchReviews | NoAction

definition useReviewSync_tick :: "'r list \<Rightarrow> 'r list \<Rightarrow> sync_action" where
  "useReviewSync_tick store_reviews context_reviews =
     (if length store_reviews \<noteq> length context_reviews then ContextFetchReviews else NoAction)"

text \<open>Three reviews \<open>R1\<close>, \<open>R2\<close> and \<open>R3\<close> with different ids and times of update.\<close>

definition sync_review :: "string \<Rightarrow> string \<Rightarrow> ref \<Rightarrow> Review" where
  "sync_review rid updatedAt n =
     \<lparr>r_ref = n, r_id = rid, r_fields = [(''updatedAt'', JDate (Some updatedAt))],
      r_files_ref = n + 1, r_files = [], r_comments_ref = n + 2, r_comments = []\<rparr>"

definition R1 :: Review where
  "R1 = sync_review ''R1'' ''2025-01-01T00:00:00.000Z'' 10"

definition R2 :: Review where
  "R2 = sync_review ''R2'' ''2025-01-02T00:00:00.000Z'' 20"

definition R3 :: Review where
  "R3 = sync_review ''R3'' ''2025-01-03T00:00:00.000Z'' 30"

text \<open>
  C6. The claim asks that a tick detects two collections of equal length and different
  content and triggers a re-fetch. The tick compares the two lengths and nothing else: with
  \<open>[R1, R2]\<close> in the store and \<open>[R1, R3]\<close> in the context it does nothing.
\<close>

theorem useReviewSync_tick_compares_lengths_only:
  "map r_id [R1, R2] = [''R1'', ''R2'']
   \<and> map r_id [R1, R3] = [''R1'', ''R3'']
   \<and> useReviewSync_tick [R1, R2] [R1, R3] = NoAction"
  by (simp add: useReviewSync_tick_def R1_def R2_def R3_def sync_review_def)

end

